theory Spec2Isabelle
  imports Main "HOL-Library.Multiset" "HOL-Library.AList"
begin

section \<open>Chat network: formats and envelopes\<close>

text \<open>
  The TypeScript source describes every value twice: a JSON format (an interface with
  read-only fields) and an envelope class wrapping one such description, whose method
  \<^verbatim>\<open>val()\<close> hands the description back. A format is a record here, an envelope a
  datatype with one constructor, named as the class, and one selector standing for
  \<^verbatim>\<open>val()\<close>. The envelope base classes belong to the library; the one envelope whose
  \<^verbatim>\<open>val()\<close> is in the source, \<^verbatim>\<open>SommetTchatParEnveloppe\<close>, returns the wrapped
  description as it is, and the other envelopes are taken to do the same.

  Several formats share field names (\<^verbatim>\<open>ID\<close>, \<^verbatim>\<open>centre\<close>, \<^verbatim>\<open>voisins\<close>,
  \<^verbatim>\<open>date\<close>). The fields keep the names of the source and are written with the name of
  their record in front where two records have the same one.

  The declarations of \<^verbatim>\<open>FormatDateFr\<close> and \<^verbatim>\<open>FormatTableIdentification\<close> belong to
  library modules that the chat module imports; nothing in the functions below looks inside
  them, so they are the type parameters \<open>'date\<close> and \<open>'voisins\<close>.
\<close>

datatype Unite = ZERO

text \<open>The two sorts of identifiers, \<^verbatim>\<open>'sommet'\<close> and \<^verbatim>\<open>'message'\<close>, are phantom tags.\<close>

datatype sommet = Sorte_sommet
datatype message = Sorte_message

datatype 'sorte Identifiant = Identifiant (val: string)

record FormatSommetTchat =
  ID :: "sommet Identifiant"
  pseudo :: string

record 'voisins FormatNoeudTchat =
  centre :: FormatSommetTchat
  voisins :: 'voisins

datatype 'voisins NoeudTchat =
  NoeudTchatParEnveloppe (val_noeud: "'voisins FormatNoeudTchat")

definition noeudTchat :: "'voisins FormatNoeudTchat \<Rightarrow> 'voisins NoeudTchat" where
  "noeudTchat n = NoeudTchatParEnveloppe n"

record ('voisins, 'date) FormatConfigurationTchat =
  configurationInitiale :: Unite
  centre :: FormatSommetTchat
  voisins :: 'voisins
  date :: 'date

datatype ('voisins, 'date) ConfigurationTchat =
  ConfigurationTchatParEnveloppe (val_configuration: "('voisins, 'date) FormatConfigurationTchat")

text \<open>Method \<^verbatim>\<open>noeud()\<close> of \<^verbatim>\<open>ConfigurationTchatParEnveloppe\<close>.\<close>

definition noeud :: "('voisins, 'date) ConfigurationTchat \<Rightarrow> 'voisins NoeudTchat" where
  "noeud this =
     (let centre = FormatConfigurationTchat.centre (val_configuration this);
          voisins = FormatConfigurationTchat.voisins (val_configuration this)
      in noeudTchat \<lparr> FormatNoeudTchat.centre = centre, FormatNoeudTchat.voisins = voisins \<rparr>)"

definition configurationDeNoeudTchat ::
  "'voisins FormatNoeudTchat \<Rightarrow> 'date \<Rightarrow> ('voisins, 'date) ConfigurationTchat" where
  "configurationDeNoeudTchat n date' =
     ConfigurationTchatParEnveloppe \<lparr>
       configurationInitiale = ZERO,
       FormatConfigurationTchat.centre = FormatNoeudTchat.centre n,
       FormatConfigurationTchat.voisins = FormatNoeudTchat.voisins n,
       FormatConfigurationTchat.date = date' \<rparr>"

datatype TypeMessageTchat =
  COM | TRANSIT | AR | ERREUR_CONNEXION | ERREUR_EMET | ERREUR_DEST | ERREUR_TYPE | INTERDICTION

record 'date FormatMessageTchat =
  ID :: "message Identifiant"
  ID_emetteur :: "sommet Identifiant"
  ID_destinataire :: "sommet Identifiant"
  type :: TypeMessageTchat
  contenu :: string
  date :: 'date

datatype 'date MessageTchat =
  MessageTchatParEnveloppe (val_message: "'date FormatMessageTchat")

text \<open>Methods \<^verbatim>\<open>transit()\<close> and \<^verbatim>\<open>avecAccuseReception()\<close> of \<^verbatim>\<open>MessageTchatParEnveloppe\<close>.\<close>

definition transit :: "'date MessageTchat \<Rightarrow> 'date MessageTchat" where
  "transit this =
     (let msg = val_message this
      in MessageTchatParEnveloppe \<lparr>
           FormatMessageTchat.ID = FormatMessageTchat.ID msg,
           ID_emetteur = ID_emetteur msg,
           ID_destinataire = ID_destinataire msg,
           type = TRANSIT,
           contenu = contenu msg,
           date = FormatMessageTchat.date msg \<rparr>)"

definition avecAccuseReception :: "'date MessageTchat \<Rightarrow> 'date MessageTchat" where
  "avecAccuseReception this =
     (let msg = val_message this
      in MessageTchatParEnveloppe \<lparr>
           FormatMessageTchat.ID = FormatMessageTchat.ID msg,
           ID_emetteur = ID_emetteur msg,
           ID_destinataire = ID_destinataire msg,
           type = AR,
           contenu = contenu msg,
           date = FormatMessageTchat.date msg \<rparr>)"

text \<open>
  \<^verbatim>\<open>messageErreurConnexion\<close> stamps the message with \<^verbatim>\<open>dateMaintenant().val()\<close>, the
  clock of the date library: the value read there is the argument \<open>maintenant\<close>.
\<close>

definition messageErreurConnexion ::
  "'date \<Rightarrow> message Identifiant \<Rightarrow> sommet Identifiant \<Rightarrow> string \<Rightarrow> 'date MessageTchat" where
  "messageErreurConnexion maintenant id' idEmetteur messageErreur =
     MessageTchatParEnveloppe \<lparr>
       FormatMessageTchat.ID = id',
       ID_emetteur = idEmetteur,
       ID_destinataire = idEmetteur,
       type = ERREUR_CONNEXION,
       contenu = messageErreur,
       date = maintenant \<rparr>"

definition messageCommunication ::
  "message Identifiant \<Rightarrow> sommet Identifiant \<Rightarrow> sommet Identifiant \<Rightarrow> string \<Rightarrow> 'date
     \<Rightarrow> 'date MessageTchat" where
  "messageCommunication id' idEmetteur idDestinataire texte date' =
     MessageTchatParEnveloppe \<lparr>
       FormatMessageTchat.ID = id',
       ID_emetteur = idEmetteur,
       ID_destinataire = idDestinataire,
       type = COM,
       contenu = texte,
       date = date' \<rparr>"

definition messageRetourErreur ::
  "'date MessageTchat \<Rightarrow> TypeMessageTchat \<Rightarrow> string \<Rightarrow> 'date MessageTchat" where
  "messageRetourErreur original codeErreur messageErreur =
     MessageTchatParEnveloppe \<lparr>
       FormatMessageTchat.ID = FormatMessageTchat.ID (val_message original),
       ID_emetteur = ID_emetteur (val_message original),
       ID_destinataire = ID_destinataire (val_message original),
       type = codeErreur,
       contenu = messageErreur,
       date = FormatMessageTchat.date (val_message original) \<rparr>"



section \<open>Arrays in JSON format\<close>

text \<open>
  The element type \<^verbatim>\<open>T\<close> of the array module is any TypeScript type, so it may
  contain the value \<^verbatim>\<open>undefined\<close>, which \<^verbatim>\<open>retirerEnFin\<close> tests for. An
  element is therefore a value of \<open>'a js\<close>: \<^verbatim>\<open>undefined\<close> or a value of \<open>'a\<close>. A native
  array is a list of such elements; a hole of a sparse array reads as \<^verbatim>\<open>undefined\<close> and
  is that element here.
\<close>

datatype 'a js = JSUndefined | Val 'a

text \<open>
  \<^verbatim>\<open>Array.prototype.pop\<close> removes the last element and returns it, and returns
  \<^verbatim>\<open>undefined\<close> on an empty array, which it leaves empty; \<^verbatim>\<open>push\<close> appends. Both
  return the array after the call.
\<close>

definition pop :: "'a js list \<Rightarrow> 'a js \<times> 'a js list" where
  "pop xs = (if xs = [] then (JSUndefined, []) else (last xs, butlast xs))"

definition push :: "'a js list \<Rightarrow> 'a js \<Rightarrow> 'a js list" where
  "push xs x = xs @ [x]"

text \<open>
  Reading \<^verbatim>\<open>a[i]\<close> beyond the length gives \<^verbatim>\<open>undefined\<close>; writing \<^verbatim>\<open>a[i] = v\<close>
  beyond the length extends the array up to index \<open>i\<close>.
\<close>

definition lire :: "'a js list \<Rightarrow> nat \<Rightarrow> 'a js" where
  "lire xs i = (if i < length xs then xs ! i else JSUndefined)"

definition ecrire :: "'a js list \<Rightarrow> nat \<Rightarrow> 'a js \<Rightarrow> 'a js list" where
  "ecrire xs i v =
     (if i < length xs then xs[i := v]
      else xs @ replicate (i - length xs) JSUndefined @ [v])"

text \<open>
  \<^verbatim>\<open>taille\<close> is a JavaScript number that the module only increments and decrements:
  an integer. The documented invariant of both formats is \<^verbatim>\<open>taille == tableau.length\<close>.
\<close>

record 'a FormatTableauMutable =
  taille :: int
  tableau :: "'a js list"
  mutable :: Unite

record 'a FormatTableau =
  taille :: int
  tableau :: "'a js list"

text \<open>The exception that \<^verbatim>\<open>retirerEnFin\<close> throws.\<close>

datatype erreur = Erreur_retirerEnFin_non_defini

text \<open>
  \<^verbatim>\<open>ajouterEnFin\<close> and \<^verbatim>\<open>retirerEnFin\<close> of \<^verbatim>\<open>ModuleTableauEnJSON\<close> mutate their
  argument \<open>t\<close>: each returns the array as it is after the call, \<^verbatim>\<open>retirerEnFin\<close>
  together with the element returned or the exception thrown.
\<close>

definition ajouterEnFin :: "'a FormatTableauMutable \<Rightarrow> 'a js \<Rightarrow> 'a FormatTableauMutable" where
  "ajouterEnFin t x =
     (let t1 = t\<lparr> FormatTableauMutable.taille := FormatTableauMutable.taille t + 1 \<rparr>
      in t1\<lparr> FormatTableauMutable.tableau := push (FormatTableauMutable.tableau t1) x \<rparr>)"

definition retirerEnFin ::
  "'a FormatTableauMutable \<Rightarrow> (erreur + 'a js) \<times> 'a FormatTableauMutable" where
  "retirerEnFin t =
     (let (r, reste) = pop (FormatTableauMutable.tableau t);
          t1 = t\<lparr> FormatTableauMutable.tableau := reste \<rparr>
      in if r = JSUndefined then (Inl Erreur_retirerEnFin_non_defini, t1)
         else (Inr r, t1\<lparr> FormatTableauMutable.taille := FormatTableauMutable.taille t1 - 1 \<rparr>))"

text \<open>
  \<^verbatim>\<open>melange\<close> of \<^verbatim>\<open>FabriqueTableauEnJSON\<close> works on two arrays: its argument
  \<^verbatim>\<open>tab\<close> and the array \<^verbatim>\<open>t\<close> it allocates with \<^verbatim>\<open>new Array(n)\<close>. The record
  \<open>memoire\<close> holds both (fields \<open>mem_tab\<close> and \<open>mem_t\<close>), so that every write of the
  function is a visible update of one of them.

  \<^verbatim>\<open>entierAleatoire\<close> comes from the number library: it is the argument
  \<open>entierAleatoire\<close>, the answer of the generator to each bound \<open>i\<close>. The loop asks
  once for each \<open>i\<close>, so a function of \<open>i\<close> covers every run of the generator.
\<close>

record 'a memoire =
  mem_tab :: "'a js list"
  mem_t :: "'a js list"

text \<open>One step \<^verbatim>\<open>t[i] = tab[i]\<close> of the copy loop.\<close>

definition copier :: "nat \<Rightarrow> 'a memoire \<Rightarrow> 'a memoire" where
  "copier i m = m\<lparr> mem_t := ecrire (mem_t m) i (lire (mem_tab m) i) \<rparr>"

text \<open>
  The exchange \<^verbatim>\<open>[t[i], t[j]] = [t[j], t[i]]\<close>: both reads come first, then the write
  at \<open>i\<close>, then the write at \<open>j\<close>.
\<close>

definition echanger :: "nat \<Rightarrow> nat \<Rightarrow> 'a memoire \<Rightarrow> 'a memoire" where
  "echanger i j m =
     (let a = lire (mem_t m) j; b = lire (mem_t m) i;
          m1 = m\<lparr> mem_t := ecrire (mem_t m) i a \<rparr>
      in m1\<lparr> mem_t := ecrire (mem_t m1) j b \<rparr>)"

text \<open>The loop \<^verbatim>\<open>for (let i = n - 1; i > 0; i--)\<close>, entered at \<open>i\<close>.\<close>

fun boucle_melange :: "(nat \<Rightarrow> nat) \<Rightarrow> nat \<Rightarrow> 'a memoire \<Rightarrow> 'a memoire" where
  "boucle_melange entierAleatoire i m =
     (if i > 0 then
        (let j = entierAleatoire i
         in boucle_melange entierAleatoire (i - 1) (echanger i j m))
      else m)"

declare boucle_melange.simps [simp del]

text \<open>
  \<^verbatim>\<open>melange\<close> returns the new table and, here, the two arrays as the call leaves them.
  For an empty \<^verbatim>\<open>tab\<close> the source starts the loop at \<open>-1\<close> and the model at \<open>0\<close>:
  neither runs the body.
\<close>

definition melange ::
  "(nat \<Rightarrow> nat) \<Rightarrow> 'a js list \<Rightarrow> 'a FormatTableau \<times> 'a memoire" where
  "melange entierAleatoire tab =
     (let n = length tab;
          m0 = \<lparr> mem_tab = tab, mem_t = replicate n JSUndefined \<rparr>;
          m1 = fold copier [0..<length (mem_tab m0)] m0;
          m2 = boucle_melange entierAleatoire (n - 1) m1
      in (\<lparr> FormatTableau.taille = int (length (mem_tab m2)),
            FormatTableau.tableau = mem_t m2 \<rparr>, m2))"


section \<open>Ring assembler\<close>

text \<open>
  The source holds the design notes of the assembler (parameters \<open>ND\<close> and \<open>NU\<close>, the
  enumerations \<open>ED\<close> and \<open>EPop\<close>, the names \<open>NOM\<close>, the rule for the receiver) and
  no implementation of it. The definitions of this section follow the algorithm of the
  specification, section 4.5, step by step, with the data model of its section 3.

  The design notes list the filling of a domain and the generation of its instructions
  under the same position \<open>i\<close>. The specification makes them two passes: step 2 fills
  every domain, step 3 then generates the instructions, and so the receiver, who lives in
  another domain, is already in \<open>EPop\<close> when it is looked up.

  The specification gives no formula for three things: the enumeration \<open>ED\<close> of the
  domain identifiers, the identifier of a user as a function of \<open>(i, j)\<close>, and the content
  of an instruction as a function of \<open>(i, j)\<close>. The algorithm \<open>assembleRing\<close> takes them
  as the arguments \<open>ED\<close>, \<open>userId\<close> and \<open>contentOf\<close>. Of \<open>ED\<close> the specification says
  that it is a bijection. Of the identifiers it says that they are derived from \<open>(i, j)\<close>
  and that their uniqueness is enforced by the assembler (section 4.2): the assembler
  \<open>ringAssembler\<close> is the algorithm run with a derivation of its own, \<open>deriveUserId\<close>,
  which gives different users different identifiers. A vertex is the
  \<open>FormatSommetTchat\<close> of the source. The ring of nodes of step 1 plays no part in steps
  2 to 4 and is left out.
\<close>

type_synonym Vertex = FormatSommetTchat

text \<open>
  Modelled from the spec: the identification table of section 4.1, whose implementation is
  in a library module outside the sources. The table is an association list in insertion
  order; \<open>insert\<close> replaces the binding of a key already present, \<open>get\<close> answers
  \<open>None\<close> for a key that is absent, \<open>size\<close> counts the bindings.
\<close>

type_synonym ('k, 'v) IdentificationTable = "('k \<times> 'v) list"

definition insert_table ::
  "'k \<Rightarrow> 'v \<Rightarrow> ('k, 'v) IdentificationTable \<Rightarrow> ('k, 'v) IdentificationTable" where
  "insert_table k v tbl = AList.update k v tbl"

text \<open>Modelled from the spec: \<open>get\<close> of the identification table.\<close>

definition get_table :: "('k, 'v) IdentificationTable \<Rightarrow> 'k \<Rightarrow> 'v option" where
  "get_table tbl k = map_of tbl k"

text \<open>Modelled from the spec: \<open>size\<close> of the identification table.\<close>

definition size_table :: "('k, 'v) IdentificationTable \<Rightarrow> nat" where
  "size_table tbl = length tbl"

text \<open>
  Modelled from the spec: the population of a domain (section 3), two identification
  tables over its users.
\<close>

record Population =
  toConnect :: "(sommet Identifiant, Vertex) IdentificationTable"
  connected :: "(sommet Identifiant, Vertex) IdentificationTable"

text \<open>Modelled from the spec: the instruction of section 3.\<close>

record 'dom Instruction =
  senderDomain :: 'dom
  senderUser :: Vertex
  receiverDomain :: 'dom
  receiverUser :: Vertex
  content :: string

text \<open>
  Modelled from the spec: the state of one assembly run, that is the population of every
  domain, the transient enumeration \<open>EPop\<close>, in which the user of index \<open>j\<close> of a
  domain stands at index \<open>j\<close>, and the instruction table keyed by (domain, user).
\<close>

record 'dom Assembly =
  population :: "'dom \<Rightarrow> Population"
  EPop :: "'dom \<Rightarrow> Vertex list"
  instructions :: "('dom \<times> Vertex, 'dom Instruction) IdentificationTable"

text \<open>
  Modelled from the spec: the two ways an assembly fails fast, a receiver domain without
  users and an index outside an enumeration.
\<close>

datatype AssemblyError = DomainConfigurationError | IndexOutOfRange

text \<open>
  Modelled from the spec: the name of item \<open>k\<close> is the binary representation of \<open>k\<close>
  (\<open>NOM\<close> in the design notes).
\<close>

fun NOM :: "nat \<Rightarrow> string" where
  "NOM n = (if n < 2 then (if n = 0 then ''0'' else ''1'')
            else NOM (n div 2) @ (if n mod 2 = 0 then ''0'' else ''1''))"

declare NOM.simps [simp del]

text \<open>
  Modelled from the spec: step 2 of section 4.5. The user of local index \<open>j\<close> in the
  domain of position \<open>i\<close> is named \<open>NOM j\<close> and identified by \<open>userId i j\<close>; it is
  inserted into \<open>toConnect\<close> of the domain \<open>ED i\<close> and appended to \<open>EPop (ED i)\<close>,
  where it gets the index \<open>j\<close>.
\<close>

definition createUser :: "(nat \<Rightarrow> nat \<Rightarrow> sommet Identifiant) \<Rightarrow> nat \<Rightarrow> nat \<Rightarrow> Vertex" where
  "createUser userId i j = \<lparr> FormatSommetTchat.ID = userId i j, pseudo = NOM j \<rparr>"

text \<open>
  Modelled from the spec: the state before the assembly, where no domain has a user and
  the instruction table is empty.
\<close>

definition initialAssembly :: "'dom Assembly" where
  "initialAssembly =
     \<lparr> population = (\<lambda>d. \<lparr> toConnect = [], connected = [] \<rparr>),
       EPop = (\<lambda>d. []),
       instructions = [] \<rparr>"

text \<open>Modelled from the spec: step 2 of section 4.5 for one user.\<close>

definition addUser ::
  "(nat \<Rightarrow> 'dom) \<Rightarrow> (nat \<Rightarrow> nat \<Rightarrow> sommet Identifiant) \<Rightarrow> nat \<Rightarrow> nat
     \<Rightarrow> 'dom Assembly \<Rightarrow> 'dom Assembly" where
  "addUser ED userId i j s =
     (let u = createUser userId i j;
          p = population s (ED i);
          s1 = s\<lparr> population := (population s)
                  (ED i := p\<lparr> toConnect := insert_table (FormatSommetTchat.ID u) u (toConnect p) \<rparr>) \<rparr>
      in s1\<lparr> EPop := (EPop s1)(ED i := EPop s1 (ED i) @ [u]) \<rparr>)"

text \<open>
  Modelled from the spec: step 2 of section 4.5, for each \<open>i\<close> in \<open>[0, ND)\<close> and each
  \<open>j\<close> in \<open>[0, NU i)\<close>.
\<close>

definition populate ::
  "(nat \<Rightarrow> 'dom) \<Rightarrow> (nat \<Rightarrow> nat \<Rightarrow> sommet Identifiant) \<Rightarrow> nat \<Rightarrow> (nat \<Rightarrow> nat)
     \<Rightarrow> 'dom Assembly \<Rightarrow> 'dom Assembly" where
  "populate ED userId ND NU s =
     fold (\<lambda>i. fold (addUser ED userId i) [0..<NU i]) [0..<ND] s"

text \<open>
  Modelled from the spec: indexed access to an enumeration, failing fast outside its
  range (section 7).
\<close>

definition enumerationAt :: "'a list \<Rightarrow> nat \<Rightarrow> AssemblyError + 'a" where
  "enumerationAt xs n = (if n < length xs then Inr (xs ! n) else Inl IndexOutOfRange)"

text \<open>
  Modelled from the spec: iteration over a sequence that stops at the first failure
  (section 7: a contract violation is not swallowed).
\<close>

fun forEach :: "('x \<Rightarrow> 's \<Rightarrow> 'e + 's) \<Rightarrow> 'x list \<Rightarrow> 's \<Rightarrow> 'e + 's" where
  "forEach f [] s = Inr s"
| "forEach f (x # xs) s = (case f x s of Inl e \<Rightarrow> Inl e | Inr s' \<Rightarrow> forEach f xs s')"

text \<open>
  Modelled from the spec: steps 3 and 4 of section 4.5. For the sender at position
  \<open>(i, j)\<close> the receiver domain is at position \<open>k = (i + ND div 2) mod ND\<close> and the
  receiver is \<open>EPop (ED k)\<close> at index \<open>(i + j) mod NU k\<close>; a domain \<open>k\<close> without users
  is a domain-configuration error. The instruction is inserted under the key
  \<open>(ED i, EPop (ED i) j)\<close>.
\<close>

definition emitInstruction ::
  "(nat \<Rightarrow> 'dom) \<Rightarrow> (nat \<Rightarrow> nat \<Rightarrow> string) \<Rightarrow> nat \<Rightarrow> (nat \<Rightarrow> nat) \<Rightarrow> nat \<Rightarrow> nat
     \<Rightarrow> 'dom Assembly \<Rightarrow> AssemblyError + 'dom Assembly" where
  "emitInstruction ED contentOf ND NU i j s =
     (let k = (i + ND div 2) mod ND
      in if NU k = 0 then Inl DomainConfigurationError
         else case enumerationAt (EPop s (ED i)) j of
                Inl e \<Rightarrow> Inl e
              | Inr sender \<Rightarrow>
                 (case enumerationAt (EPop s (ED k)) ((i + j) mod NU k) of
                    Inl e \<Rightarrow> Inl e
                  | Inr receiver \<Rightarrow>
                      Inr (s\<lparr> instructions :=
                        insert_table (ED i, sender)
                          \<lparr> senderDomain = ED i, senderUser = sender,
                            receiverDomain = ED k, receiverUser = receiver,
                            content = contentOf i j \<rparr>
                          (instructions s) \<rparr>)))"

text \<open>
  Modelled from the spec: steps 3 and 4 of section 4.5, for each \<open>i\<close> in \<open>[0, ND)\<close> and
  each \<open>j\<close> in \<open>[0, NU i)\<close>.
\<close>

definition generateInstructions ::
  "(nat \<Rightarrow> 'dom) \<Rightarrow> (nat \<Rightarrow> nat \<Rightarrow> string) \<Rightarrow> nat \<Rightarrow> (nat \<Rightarrow> nat)
     \<Rightarrow> 'dom Assembly \<Rightarrow> AssemblyError + 'dom Assembly" where
  "generateInstructions ED contentOf ND NU s =
     forEach (\<lambda>i. forEach (emitInstruction ED contentOf ND NU i) [0..<NU i]) [0..<ND] s"

text \<open>
  Modelled from the spec: the assembler of section 4.5, which populates every domain and
  then generates the instructions. It returns the state of the run, or the error that
  stopped it.
\<close>

definition assembleRing ::
  "(nat \<Rightarrow> 'dom) \<Rightarrow> (nat \<Rightarrow> nat \<Rightarrow> sommet Identifiant) \<Rightarrow> (nat \<Rightarrow> nat \<Rightarrow> string)
     \<Rightarrow> nat \<Rightarrow> (nat \<Rightarrow> nat) \<Rightarrow> AssemblyError + 'dom Assembly" where
  "assembleRing ED userId contentOf ND NU =
     generateInstructions ED contentOf ND NU (populate ED userId ND NU initialAssembly)"

text \<open>
  Modelled from the spec: the identifier of the user of local index \<open>j\<close> in the domain of
  position \<open>i\<close>, derived from \<open>(i, j)\<close> alone (section 4.5, step 2) and unique in the
  scenario, which section 4.2 makes the assembler's duty. The specification gives no
  formula; this one writes the name of the position, a dot and the name of the index.
\<close>

definition deriveUserId :: "nat \<Rightarrow> nat \<Rightarrow> sommet Identifiant" where
  "deriveUserId i j = Identifiant (NOM i @ ''.'' @ NOM j)"

text \<open>
  Modelled from the spec: the assembler of section 4.5 with the identifiers it derives
  itself. The enumeration \<open>ED\<close> and the contents stay arguments.
\<close>

definition ringAssembler ::
  "(nat \<Rightarrow> 'dom) \<Rightarrow> (nat \<Rightarrow> nat \<Rightarrow> string) \<Rightarrow> nat \<Rightarrow> (nat \<Rightarrow> nat)
     \<Rightarrow> AssemblyError + 'dom Assembly" where
  "ringAssembler ED contentOf ND NU = assembleRing ED deriveUserId contentOf ND NU"

subsection \<open>Notions used to state the result of an assembly\<close>

text \<open>
  The positions \<open>(i, j)\<close> in the order in which the assembler visits them, the
  instruction and the table entry expected at a position, and the state of the population
  once the domains of the first \<open>n\<close> positions are filled.
\<close>

definition positions :: "(nat \<Rightarrow> nat) \<Rightarrow> nat \<Rightarrow> (nat \<times> nat) list" where
  "positions NU n = concat (map (\<lambda>i. map (Pair i) [0..<NU i]) [0..<n])"

definition instructionFor ::
  "(nat \<Rightarrow> 'dom) \<Rightarrow> (nat \<Rightarrow> nat \<Rightarrow> sommet Identifiant) \<Rightarrow> (nat \<Rightarrow> nat \<Rightarrow> string)
     \<Rightarrow> nat \<Rightarrow> (nat \<Rightarrow> nat) \<Rightarrow> nat \<Rightarrow> nat \<Rightarrow> 'dom Instruction" where
  "instructionFor ED userId contentOf ND NU i j =
     (let k = (i + ND div 2) mod ND
      in \<lparr> senderDomain = ED i, senderUser = createUser userId i j,
           receiverDomain = ED k, receiverUser = createUser userId k ((i + j) mod NU k),
           content = contentOf i j \<rparr>)"

definition entryFor ::
  "(nat \<Rightarrow> 'dom) \<Rightarrow> (nat \<Rightarrow> nat \<Rightarrow> sommet Identifiant) \<Rightarrow> (nat \<Rightarrow> nat \<Rightarrow> string)
     \<Rightarrow> nat \<Rightarrow> (nat \<Rightarrow> nat) \<Rightarrow> nat \<times> nat \<Rightarrow> ('dom \<times> Vertex) \<times> 'dom Instruction" where
  "entryFor ED userId contentOf ND NU p =
     ((ED (fst p), createUser userId (fst p) (snd p)),
      instructionFor ED userId contentOf ND NU (fst p) (snd p))"

definition populated ::
  "(nat \<Rightarrow> 'dom) \<Rightarrow> (nat \<Rightarrow> nat \<Rightarrow> sommet Identifiant) \<Rightarrow> (nat \<Rightarrow> nat) \<Rightarrow> nat
     \<Rightarrow> 'dom Assembly \<Rightarrow> bool" where
  "populated ED userId NU n s \<longleftrightarrow>
     (\<forall>i<n. EPop s (ED i) = map (createUser userId i) [0..<NU i]
           \<and> population s (ED i) =
               \<lparr> toConnect = map (\<lambda>j. (userId i j, createUser userId i j)) [0..<NU i],
                 connected = [] \<rparr>)
     \<and> (\<forall>d. d \<notin> ED ` {..<n} \<longrightarrow>
           EPop s d = [] \<and> population s d = \<lparr> toConnect = [], connected = [] \<rparr>)
     \<and> instructions s = []"

text \<open>The two scenarios of the specification, as user counts per position.\<close>

definition NU_scenario4 :: "nat \<Rightarrow> nat" where
  "NU_scenario4 i = [1, 1, 1, 1] ! i"

definition NU_scenario5 :: "nat \<Rightarrow> nat" where
  "NU_scenario5 i = [2, 1, 1, 1, 1] ! i"

text \<open>
  Parameters for concrete runs: domain identifiers that are the positions themselves,
  user identifiers written \<open>NOM i.NOM j\<close>, and contents naming the position.
\<close>

definition ED_exemple :: "nat \<Rightarrow> nat" where
  "ED_exemple i = i"

definition userId_exemple :: "nat \<Rightarrow> nat \<Rightarrow> sommet Identifiant" where
  "userId_exemple i j = Identifiant (NOM i @ ''.'' @ NOM j)"

definition contentOf_exemple :: "nat \<Rightarrow> nat \<Rightarrow> string" where
  "contentOf_exemple i j = ''message '' @ NOM i @ ''.'' @ NOM j"

section \<open>Properties of the message and configuration factories\<close>

text \<open>
  Claim C1. For every chat message \<open>m\<close>, \<open>transit m\<close> and \<open>avecAccuseReception m\<close> are
  messages with the identifier, sender, receiver, content and date of \<open>m\<close>; the type
  alone is replaced, by \<open>TRANSIT\<close> and by \<open>AR\<close>. The description of the result is the
  description of \<open>m\<close> with the type field updated, and \<open>m\<close> is only read. Applying either
  conversion a second time gives the same message as applying it once.
\<close>

theorem transit_avecAccuseReception_preserve:
  "val_message (transit m) = (val_message m)\<lparr> type := TRANSIT \<rparr>
   \<and> val_message (avecAccuseReception m) = (val_message m)\<lparr> type := AR \<rparr>
   \<and> FormatMessageTchat.ID (val_message (transit m)) = FormatMessageTchat.ID (val_message m)
   \<and> ID_emetteur (val_message (transit m)) = ID_emetteur (val_message m)
   \<and> ID_destinataire (val_message (transit m)) = ID_destinataire (val_message m)
   \<and> contenu (val_message (transit m)) = contenu (val_message m)
   \<and> FormatMessageTchat.date (val_message (transit m)) = FormatMessageTchat.date (val_message m)
   \<and> type (val_message (transit m)) = TRANSIT
   \<and> FormatMessageTchat.ID (val_message (avecAccuseReception m)) = FormatMessageTchat.ID (val_message m)
   \<and> ID_emetteur (val_message (avecAccuseReception m)) = ID_emetteur (val_message m)
   \<and> ID_destinataire (val_message (avecAccuseReception m)) = ID_destinataire (val_message m)
   \<and> contenu (val_message (avecAccuseReception m)) = contenu (val_message m)
   \<and> FormatMessageTchat.date (val_message (avecAccuseReception m))
       = FormatMessageTchat.date (val_message m)
   \<and> type (val_message (avecAccuseReception m)) = AR
   \<and> transit (transit m) = transit m
   \<and> avecAccuseReception (avecAccuseReception m) = avecAccuseReception m"
  by (simp add: transit_def avecAccuseReception_def Let_def)

text \<open>
  Claim C2. For every chat message \<open>m\<close>, error code \<open>t\<close> and error text \<open>s\<close>, the reply
  \<open>messageRetourErreur m t s\<close> has the identifier, sender, receiver and date of \<open>m\<close>, the
  type \<open>t\<close> and the content \<open>s\<close>: it is the description of \<open>m\<close> with exactly the type and
  the content replaced.
\<close>

theorem messageRetourErreur_preserve:
  "FormatMessageTchat.ID (val_message (messageRetourErreur m t s)) = FormatMessageTchat.ID (val_message m)
   \<and> ID_emetteur (val_message (messageRetourErreur m t s)) = ID_emetteur (val_message m)
   \<and> ID_destinataire (val_message (messageRetourErreur m t s)) = ID_destinataire (val_message m)
   \<and> FormatMessageTchat.date (val_message (messageRetourErreur m t s))
       = FormatMessageTchat.date (val_message m)
   \<and> type (val_message (messageRetourErreur m t s)) = t
   \<and> contenu (val_message (messageRetourErreur m t s)) = s
   \<and> val_message (messageRetourErreur m t s) = (val_message m)\<lparr> type := t, contenu := s \<rparr>"
  by (simp add: messageRetourErreur_def)

text \<open>
  Claim C7. For every message identifier \<open>i\<close>, vertex identifier \<open>e\<close> and error text
  \<open>s\<close>, whatever the clock reads, \<open>messageErreurConnexion\<close> builds a message of type
  \<open>ERREUR_CONNEXION\<close> addressed to its own sender: the sender and the receiver are both
  \<open>e\<close>.
\<close>

theorem messageErreurConnexion_auto_adresse:
  "type (val_message (messageErreurConnexion maintenant i e s)) = ERREUR_CONNEXION
   \<and> ID_emetteur (val_message (messageErreurConnexion maintenant i e s)) = e
   \<and> ID_destinataire (val_message (messageErreurConnexion maintenant i e s)) = e"
  by (simp add: messageErreurConnexion_def)

text \<open>
  Claim C8. For every node description \<open>n\<close> and date \<open>d\<close>, \<open>configurationDeNoeudTchat n d\<close>
  is a configuration, built without any check on \<open>n\<close>, whose centre and neighbours are
  those of \<open>n\<close> and whose date is \<open>d\<close>; the node that \<open>noeud\<close> extracts from it has the
  centre and the neighbours of \<open>n\<close>, so it is \<open>n\<close> again.
\<close>

theorem configurationDeNoeudTchat_noeud:
  "FormatConfigurationTchat.centre (val_configuration (configurationDeNoeudTchat n d))
     = FormatNoeudTchat.centre n
   \<and> FormatConfigurationTchat.voisins (val_configuration (configurationDeNoeudTchat n d))
     = FormatNoeudTchat.voisins n
   \<and> FormatConfigurationTchat.date (val_configuration (configurationDeNoeudTchat n d)) = d
   \<and> configurationInitiale (val_configuration (configurationDeNoeudTchat n d)) = ZERO
   \<and> FormatNoeudTchat.centre (val_noeud (noeud (configurationDeNoeudTchat n d)))
     = FormatNoeudTchat.centre n
   \<and> FormatNoeudTchat.voisins (val_noeud (noeud (configurationDeNoeudTchat n d)))
     = FormatNoeudTchat.voisins n
   \<and> val_noeud (noeud (configurationDeNoeudTchat n d)) = n"
  by (simp add: configurationDeNoeudTchat_def noeud_def noeudTchat_def Let_def)


section \<open>Properties of the array module\<close>

subsection \<open>Removing at the end\<close>

lemma pop_push: "pop (push xs x) = (x, xs)"
  by (simp add: pop_def push_def)

text \<open>
  On arrays that hold no \<open>undefined\<close> element, \<open>retirerEnFin\<close> fails exactly on the
  empty array and then leaves it as it was; otherwise it returns the last element,
  shortens the array by it and decrements \<open>taille\<close>.
\<close>

lemma retirerEnFin_vide:
  "FormatTableauMutable.tableau t = [] \<Longrightarrow>
   retirerEnFin t = (Inl Erreur_retirerEnFin_non_defini, t)"
  by (simp add: retirerEnFin_def pop_def)

lemma retirerEnFin_non_vide:
  assumes "FormatTableauMutable.tableau t \<noteq> []"
    and "last (FormatTableauMutable.tableau t) \<noteq> JSUndefined"
  shows "retirerEnFin t =
     (Inr (last (FormatTableauMutable.tableau t)),
      t\<lparr> FormatTableauMutable.tableau := butlast (FormatTableauMutable.tableau t),
         FormatTableauMutable.taille := FormatTableauMutable.taille t - 1 \<rparr>)"
  using assms by (simp add: retirerEnFin_def pop_def)

lemma retirerEnFin_erreur_ssi_vide:
  assumes "JSUndefined \<notin> set (FormatTableauMutable.tableau t)"
  shows "fst (retirerEnFin t) = Inl Erreur_retirerEnFin_non_defini
         \<longleftrightarrow> FormatTableauMutable.tableau t = []"
proof (cases "FormatTableauMutable.tableau t = []")
  case True
  then show ?thesis by (simp add: retirerEnFin_vide)
next
  case False
  then have "last (FormatTableauMutable.tableau t) \<in> set (FormatTableauMutable.tableau t)"
    by simp
  with assms have "last (FormatTableauMutable.tableau t) \<noteq> JSUndefined"
    by metis
  with False show ?thesis by (simp add: retirerEnFin_non_vide)
qed

lemma retirerEnFin_ajouterEnFin:
  "x \<noteq> JSUndefined \<Longrightarrow> retirerEnFin (ajouterEnFin t x) = (Inr x, t)"
  by (simp add: retirerEnFin_def ajouterEnFin_def Let_def pop_push)

text \<open>
  Claim C9. The claim is that \<open>retirerEnFin t\<close> throws exactly when \<open>t\<close> is empty and
  leaves \<open>t\<close> unchanged when it throws, and that adding any element \<open>x\<close> and removing
  it again returns \<open>x\<close> and restores \<open>t\<close>. The function decides by the value that
  \<open>pop\<close> returned, after \<open>pop\<close> has shortened the array. On the array of size one that
  holds \<open>undefined\<close>, which satisfies the invariant of the format, it throws although
  the array is not empty, and leaves an empty array with \<open>taille\<close> still one; the same
  happens after \<open>ajouterEnFin\<close> of \<open>undefined\<close> to the empty array.
\<close>

theorem retirerEnFin_dernier_undefined:
  "retirerEnFin \<lparr> FormatTableauMutable.taille = 1,
                  FormatTableauMutable.tableau = [JSUndefined :: int js], mutable = ZERO \<rparr>
     = (Inl Erreur_retirerEnFin_non_defini,
        \<lparr> FormatTableauMutable.taille = 1, FormatTableauMutable.tableau = [], mutable = ZERO \<rparr>)
   \<and> retirerEnFin
       (ajouterEnFin \<lparr> FormatTableauMutable.taille = 0,
                       FormatTableauMutable.tableau = [], mutable = ZERO \<rparr>
          (JSUndefined :: int js))
     = (Inl Erreur_retirerEnFin_non_defini,
        \<lparr> FormatTableauMutable.taille = 1, FormatTableauMutable.tableau = [], mutable = ZERO \<rparr>)"
  by (simp add: retirerEnFin_def ajouterEnFin_def pop_def push_def Let_def)

subsection \<open>Shuffling\<close>

lemma remplacer_en_k:
  assumes "k < length xs" "length ys = length xs"
  shows "(take k xs @ drop k ys)[k := xs ! k] = take (Suc k) xs @ drop (Suc k) ys"
proof -
  have d: "drop k ys = ys ! k # drop (Suc k) ys"
    using assms by (simp add: Cons_nth_drop_Suc)
  have "(take k xs @ drop k ys)[k := xs ! k] = take k xs @ (drop k ys)[0 := xs ! k]"
    using assms by (simp add: list_update_append)
  also have "\<dots> = take k xs @ xs ! k # drop (Suc k) ys"
    by (simp add: d)
  also have "\<dots> = take (Suc k) xs @ drop (Suc k) ys"
    using assms by (simp add: take_Suc_conv_app_nth)
  finally show ?thesis .
qed

text \<open>After \<open>k\<close> steps the copy loop has copied the first \<open>k\<close> elements.\<close>

lemma copier_fold:
  "k \<le> length (mem_tab m) \<Longrightarrow> length (mem_t m) = length (mem_tab m) \<Longrightarrow>
   fold copier [0..<k] m = m\<lparr> mem_t := take k (mem_tab m) @ drop k (mem_t m) \<rparr>"
proof (induction k)
  case 0
  then show ?case by simp
next
  case (Suc k)
  then have k: "k < length (mem_tab m)" by simp
  from Suc k have "fold copier [0..<Suc k] m
      = copier k (m\<lparr> mem_t := take k (mem_tab m) @ drop k (mem_t m) \<rparr>)"
    by simp
  also have "\<dots> = m\<lparr> mem_t := (take k (mem_tab m) @ drop k (mem_t m))[k := mem_tab m ! k] \<rparr>"
    using k Suc.prems(2) by (simp add: copier_def ecrire_def lire_def)
  finally show ?case
    using remplacer_en_k[OF k Suc.prems(2)] by simp
qed

text \<open>An exchange inside the array permutes \<open>t\<close> and does not touch \<open>tab\<close>.\<close>

lemma echanger_mset:
  assumes "i < length (mem_t m)" "j < length (mem_t m)"
  shows "mset (mem_t (echanger i j m)) = mset (mem_t m)
         \<and> length (mem_t (echanger i j m)) = length (mem_t m)
         \<and> mem_tab (echanger i j m) = mem_tab m"
  using assms mset_swap[of j "mem_t m" i]
  by (simp add: echanger_def Let_def ecrire_def lire_def)

lemma boucle_melange_0: "boucle_melange f 0 m = m"
  by (subst boucle_melange.simps) simp

lemma boucle_melange_pos:
  "0 < i \<Longrightarrow> boucle_melange f i m = boucle_melange f (i - 1) (echanger i (f i) m)"
  by (subst boucle_melange.simps) (simp add: Let_def)

lemma boucle_melange_mset:
  "\<forall>k. f k \<le> k \<Longrightarrow> i < length (mem_t m) \<Longrightarrow>
   mset (mem_t (boucle_melange f i m)) = mset (mem_t m)
   \<and> length (mem_t (boucle_melange f i m)) = length (mem_t m)
   \<and> mem_tab (boucle_melange f i m) = mem_tab m"
proof (induction i arbitrary: m)
  case 0
  then show ?case by (simp add: boucle_melange_0)
next
  case (Suc i)
  have j: "f (Suc i) < length (mem_t m)"
    using Suc.prems by (meson le_less_trans)
  note e = echanger_mset[OF Suc.prems(2) j]
  have "i < length (mem_t (echanger (Suc i) (f (Suc i)) m))"
    using e Suc.prems(2) by simp
  from Suc.IH[OF Suc.prems(1) this] e show ?case
    by (simp add: boucle_melange_pos)
qed

text \<open>
  Claim C10. For every array \<open>tab\<close> and every generator that answers each bound \<open>i\<close>
  with some \<open>j\<close> between \<open>0\<close> and \<open>i\<close>, \<open>melange\<close> returns a table whose \<open>taille\<close> is
  the length of \<open>tab\<close> and whose array, of that length, holds the elements of \<open>tab\<close>
  with their multiplicities, that is a permutation of \<open>tab\<close>; the array \<open>tab\<close> is the
  same after the call as before.
\<close>

theorem melange_permutation:
  assumes "\<forall>i. entierAleatoire i \<le> i"
  shows "FormatTableau.taille (fst (melange entierAleatoire tab)) = int (length tab)
   \<and> length (FormatTableau.tableau (fst (melange entierAleatoire tab))) = length tab
   \<and> mset (FormatTableau.tableau (fst (melange entierAleatoire tab))) = mset tab
   \<and> mem_tab (snd (melange entierAleatoire tab)) = tab"
proof -
  define m0 where "m0 = \<lparr> mem_tab = tab, mem_t = replicate (length tab) (JSUndefined :: 'a js) \<rparr>"
  have m1: "fold copier [0..<length tab] m0 = \<lparr> mem_tab = tab, mem_t = tab \<rparr>"
    using copier_fold[of "length tab" m0] by (simp add: m0_def)
  have m: "melange entierAleatoire tab =
    (let m2 = boucle_melange entierAleatoire (length tab - 1) \<lparr> mem_tab = tab, mem_t = tab \<rparr>
     in (\<lparr> FormatTableau.taille = int (length (mem_tab m2)),
           FormatTableau.tableau = mem_t m2 \<rparr>, m2))"
    unfolding melange_def Let_def using m1 by (simp add: m0_def)
  show ?thesis
  proof (cases "tab = []")
    case True
    then show ?thesis unfolding m by (simp add: boucle_melange_0)
  next
    case False
    then have "length tab - 1 < length (mem_t \<lparr> mem_tab = tab, mem_t = tab \<rparr>)" by simp
    from boucle_melange_mset[OF assms this] show ?thesis
      by (simp add: m Let_def)
  qed
qed

theorem melange_permutation_witness:
  "(\<forall>i::nat. i div 2 \<le> i)
   \<and> FormatTableau.taille (fst (melange (\<lambda>i. i div 2) [Val (10::int), Val 20, JSUndefined, Val 40]))
       = int (length [Val (10::int), Val 20, JSUndefined, Val 40])
   \<and> length (FormatTableau.tableau
        (fst (melange (\<lambda>i. i div 2) [Val (10::int), Val 20, JSUndefined, Val 40])))
       = length [Val (10::int), Val 20, JSUndefined, Val 40]
   \<and> mset (FormatTableau.tableau
        (fst (melange (\<lambda>i. i div 2) [Val (10::int), Val 20, JSUndefined, Val 40])))
       = mset [Val (10::int), Val 20, JSUndefined, Val 40]
   \<and> mem_tab (snd (melange (\<lambda>i. i div 2) [Val (10::int), Val 20, JSUndefined, Val 40]))
       = [Val (10::int), Val 20, JSUndefined, Val 40]
   \<and> fst (melange (\<lambda>i. i div 2) [Val (10::int), Val 20, JSUndefined, Val 40])
       = \<lparr> FormatTableau.taille = 4,
           FormatTableau.tableau = [JSUndefined, Val 10, Val 40, Val 20] \<rparr>"
proof -
  have h: "\<forall>i::nat. i div 2 \<le> i" by simp
  have v: "fst (melange (\<lambda>i. i div 2) [Val (10::int), Val 20, JSUndefined, Val 40])
       = \<lparr> FormatTableau.taille = 4,
           FormatTableau.tableau = [JSUndefined, Val 10, Val 40, Val 20] \<rparr>"
    by code_simp
  from melange_permutation[OF h, of "[Val (10::int), Val 20, JSUndefined, Val 40]"] h v
  show ?thesis by blast
qed


section \<open>Properties of the ring assembler\<close>

subsection \<open>Tables and iteration\<close>

lemma insert_table_fresh:
  "k \<notin> fst ` set tbl \<Longrightarrow> insert_table k v tbl = tbl @ [(k, v)]"
  unfolding insert_table_def by (induction tbl) auto

lemma fold_insert_table_fresh:
  "distinct (map f xs) \<Longrightarrow> f ` set xs \<inter> fst ` set tbl = {} \<Longrightarrow>
   fold (\<lambda>x. insert_table (f x) (g x)) xs tbl = tbl @ map (\<lambda>x. (f x, g x)) xs"
proof (induction xs arbitrary: tbl)
  case Nil
  then show ?case by simp
next
  case (Cons x xs)
  have fresh: "f x \<notin> fst ` set tbl" using Cons.prems(2) by auto
  have d: "distinct (map f xs)" using Cons.prems(1) by simp
  have "f ` set xs \<inter> fst ` set (tbl @ [(f x, g x)]) = {}"
    using Cons.prems by auto
  from Cons.IH[OF d this] show ?case
    by (simp add: insert_table_fresh[OF fresh])
qed

lemma forEach_snoc:
  "forEach f (xs @ [x]) s = (case forEach f xs s of Inl e \<Rightarrow> Inl e | Inr s' \<Rightarrow> f x s')"
  by (induction xs arbitrary: s) (auto split: sum.splits)

lemma ID_createUser: "FormatSommetTchat.ID (createUser userId i j) = userId i j"
  by (simp add: createUser_def)

lemma createUser_inj: "createUser userId i j = createUser userId i' j' \<Longrightarrow> userId i j = userId i' j'"
  by (simp add: createUser_def)

lemma addUser_fold:
  "fold (addUser ED userId i) [0..<m] s =
     s\<lparr> population := (population s)
            (ED i := (population s (ED i))
               \<lparr> toConnect := fold (\<lambda>j. insert_table (userId i j) (createUser userId i j)) [0..<m]
                                 (toConnect (population s (ED i))) \<rparr>),
        EPop := (EPop s)(ED i := EPop s (ED i) @ map (createUser userId i) [0..<m]) \<rparr>"
proof (induction m)
  case 0
  show ?case by simp
next
  case (Suc m)
  have "fold (addUser ED userId i) [0..<Suc m] s
      = addUser ED userId i m (fold (addUser ED userId i) [0..<m] s)"
    by simp
  also have "\<dots> = addUser ED userId i m
     (s\<lparr> population := (population s)
            (ED i := (population s (ED i))
               \<lparr> toConnect := fold (\<lambda>j. insert_table (userId i j) (createUser userId i j)) [0..<m]
                                 (toConnect (population s (ED i))) \<rparr>),
        EPop := (EPop s)(ED i := EPop s (ED i) @ map (createUser userId i) [0..<m]) \<rparr>)"
    by (simp only: Suc)
  also have "\<dots> = s\<lparr> population := (population s)
            (ED i := (population s (ED i))
               \<lparr> toConnect := fold (\<lambda>j. insert_table (userId i j) (createUser userId i j)) [0..<Suc m]
                                 (toConnect (population s (ED i))) \<rparr>),
        EPop := (EPop s)(ED i := EPop s (ED i) @ map (createUser userId i) [0..<Suc m]) \<rparr>"
    by (simp add: addUser_def Let_def ID_createUser)
  finally show ?case .
qed

lemma fold_insert_users:
  assumes "inj_on (userId i) {..<m}"
  shows "fold (\<lambda>j. insert_table (userId i j) (createUser userId i j)) [0..<m] []
         = map (\<lambda>j. (userId i j, createUser userId i j)) [0..<m]"
proof -
  have "distinct (map (userId i) [0..<m])"
    using assms by (simp add: distinct_map inj_on_def)
  from fold_insert_table_fresh[OF this, of "[]"] show ?thesis by simp
qed

lemma populated_step:
  assumes p: "populated ED userId NU n s"
    and injED: "inj_on ED {..<Suc n}"
    and injId: "inj_on (userId n) {..<NU n}"
  shows "populated ED userId NU (Suc n) (fold (addUser ED userId n) [0..<NU n] s)"
proof -
  have other: "ED i \<noteq> ED n" if "i < n" for i
    using inj_onD[OF injED, of i n] that by auto
  have fresh: "ED n \<notin> ED ` {..<n}"
  proof
    assume "ED n \<in> ED ` {..<n}"
    then obtain x where "x < n" "ED n = ED x" by auto
    with other[of x] show False by simp
  qed
  have e0: "EPop s (ED n) = []" and p0: "population s (ED n) = \<lparr> toConnect = [], connected = [] \<rparr>"
    using p fresh by (auto simp: populated_def)
  note tbl = fold_insert_users[of userId n "NU n", OF injId]
  let ?s' = "fold (addUser ED userId n) [0..<NU n] s"
  have here: "EPop ?s' (ED n) = map (createUser userId n) [0..<NU n]
      \<and> population ?s' (ED n) =
           \<lparr> toConnect = map (\<lambda>j. (userId n j, createUser userId n j)) [0..<NU n], connected = [] \<rparr>"
    unfolding addUser_fold by (simp add: e0 p0 tbl)
  have elsewhere: "EPop ?s' d = EPop s d \<and> population ?s' d = population s d" if "d \<noteq> ED n" for d
    unfolding addUser_fold using that by simp
  have instr: "instructions ?s' = []"
    unfolding addUser_fold using p by (simp add: populated_def)
  have 1: "EPop ?s' (ED i) = map (createUser userId i) [0..<NU i]
      \<and> population ?s' (ED i) =
           \<lparr> toConnect = map (\<lambda>j. (userId i j, createUser userId i j)) [0..<NU i], connected = [] \<rparr>"
    if "i < Suc n" for i
  proof (cases "i = n")
    case True
    then show ?thesis using here by simp
  next
    case False
    then have "i < n" using that by simp
    then show ?thesis using elsewhere[OF other[OF \<open>i < n\<close>]] p by (simp add: populated_def)
  qed
  have 2: "EPop ?s' d = [] \<and> population ?s' d = \<lparr> toConnect = [], connected = [] \<rparr>"
    if "d \<notin> ED ` {..<Suc n}" for d
  proof -
    have "d \<noteq> ED n" and "d \<notin> ED ` {..<n}" using that by auto
    then show ?thesis using elsewhere[of d] p by (simp add: populated_def)
  qed
  show ?thesis
    unfolding populated_def using 1 2 instr by blast
qed

lemma populated_populate_upto:
  assumes injED: "inj_on ED {..<ND}"
    and injId: "\<forall>i<ND. inj_on (userId i) {..<NU i}"
  shows "n \<le> ND \<Longrightarrow>
     populated ED userId NU n
       (fold (\<lambda>i. fold (addUser ED userId i) [0..<NU i]) [0..<n] initialAssembly)"
proof (induction n)
  case 0
  show ?case by (simp add: populated_def initialAssembly_def)
next
  case (Suc n)
  have "inj_on ED {..<Suc n}"
    using injED Suc.prems by (auto simp: inj_on_def)
  moreover have "inj_on (userId n) {..<NU n}"
    using injId Suc.prems by simp
  moreover have "populated ED userId NU n
       (fold (\<lambda>i. fold (addUser ED userId i) [0..<NU i]) [0..<n] initialAssembly)"
    using Suc by simp
  ultimately show ?case
    using populated_step by fastforce
qed

lemma populated_populate:
  assumes "inj_on ED {..<ND}" "\<forall>i<ND. inj_on (userId i) {..<NU i}"
  shows "populated ED userId NU ND (populate ED userId ND NU initialAssembly)"
  unfolding populate_def using populated_populate_upto[OF assms, of ND] by simp



lemma emitInstruction_ok:
  assumes ep: "\<forall>i<ND. EPop s (ED i) = map (createUser userId i) [0..<NU i]"
    and pos: "\<forall>i<ND. 0 < NU i"
    and i: "i < ND" and j: "j < NU i"
  shows "emitInstruction ED contentOf ND NU i j s =
     Inr (s\<lparr> instructions := insert_table (ED i, createUser userId i j)
            (instructionFor ED userId contentOf ND NU i j) (instructions s) \<rparr>)"
proof -
  let ?k = "(i + ND div 2) mod ND"
  have k: "?k < ND" using i by simp
  then have nk: "0 < NU ?k" using pos by blast
  have r: "(i + j) mod NU ?k < NU ?k" using nk by simp
  have 1: "enumerationAt (EPop s (ED i)) j = Inr (createUser userId i j)"
    using ep i j by (simp add: enumerationAt_def)
  have 2: "enumerationAt (EPop s (ED ?k)) ((i + j) mod NU ?k)
        = Inr (createUser userId ?k ((i + j) mod NU ?k))"
    using ep k r by (simp add: enumerationAt_def)
  show ?thesis
    unfolding emitInstruction_def Let_def using nk by (simp add: 1 2 instructionFor_def Let_def)
qed

lemma emit_domain:
  assumes ep: "\<forall>i<ND. EPop s (ED i) = map (createUser userId i) [0..<NU i]"
    and pos: "\<forall>i<ND. 0 < NU i"
    and i: "i < ND"
  shows "m \<le> NU i \<Longrightarrow>
     forEach (emitInstruction ED contentOf ND NU i) [0..<m] s =
     Inr (s\<lparr> instructions :=
            fold (\<lambda>j. insert_table (ED i, createUser userId i j)
                        (instructionFor ED userId contentOf ND NU i j))
              [0..<m] (instructions s) \<rparr>)"
proof (induction m)
  case 0
  show ?case by simp
next
  case (Suc m)
  let ?s' = "s\<lparr> instructions :=
            fold (\<lambda>j. insert_table (ED i, createUser userId i j)
                        (instructionFor ED userId contentOf ND NU i j))
              [0..<m] (instructions s) \<rparr>"
  have ih: "forEach (emitInstruction ED contentOf ND NU i) [0..<m] s = Inr ?s'"
    using Suc by simp
  have ep': "\<forall>i<ND. EPop ?s' (ED i) = map (createUser userId i) [0..<NU i]"
    using ep by simp
  have m: "m < NU i" using Suc.prems by simp
  show ?case
    by (simp add: forEach_snoc ih emitInstruction_ok[OF ep' pos i m])
qed

lemma emit_all:
  assumes ep: "\<forall>i<ND. EPop s (ED i) = map (createUser userId i) [0..<NU i]"
    and pos: "\<forall>i<ND. 0 < NU i"
  shows "n \<le> ND \<Longrightarrow>
     forEach (\<lambda>i. forEach (emitInstruction ED contentOf ND NU i) [0..<NU i]) [0..<n] s =
     Inr (s\<lparr> instructions :=
            fold (\<lambda>i. fold (\<lambda>j. insert_table (ED i, createUser userId i j)
                        (instructionFor ED userId contentOf ND NU i j)) [0..<NU i])
              [0..<n] (instructions s) \<rparr>)"
proof (induction n)
  case 0
  show ?case by simp
next
  case (Suc n)
  let ?s' = "s\<lparr> instructions :=
            fold (\<lambda>i. fold (\<lambda>j. insert_table (ED i, createUser userId i j)
                        (instructionFor ED userId contentOf ND NU i j)) [0..<NU i])
              [0..<n] (instructions s) \<rparr>"
  have ih: "forEach (\<lambda>i. forEach (emitInstruction ED contentOf ND NU i) [0..<NU i]) [0..<n] s
      = Inr ?s'"
    using Suc by simp
  have ep': "\<forall>i<ND. EPop ?s' (ED i) = map (createUser userId i) [0..<NU i]"
    using ep by simp
  have n: "n < ND" using Suc.prems by simp
  show ?case
    by (simp add: forEach_snoc ih emit_domain[OF ep' pos n order_refl])
qed

lemma positions_Suc: "positions NU (Suc n) = positions NU n @ map (Pair n) [0..<NU n]"
  by (simp add: positions_def)

lemma set_positions: "set (positions NU n) = {(i, j). i < n \<and> j < NU i}"
  by (auto simp: positions_def)

lemma length_positions: "length (positions NU n) = (\<Sum>i<n. NU i)"
  by (induction n) (simp_all add: positions_Suc positions_def)

lemma distinct_positions: "distinct (positions NU n)"
proof (induction n)
  case 0
  show ?case by (simp add: positions_def)
next
  case (Suc n)
  then show ?case
    by (auto simp: positions_Suc set_positions distinct_map inj_on_def)
qed

lemma fold_positions:
  "fold (\<lambda>i. fold (\<lambda>j. F i j) [0..<NU i]) [0..<n] tbl
   = fold (\<lambda>p. F (fst p) (snd p)) (positions NU n) tbl"
  by (induction n arbitrary: tbl) (simp_all add: positions_Suc positions_def fold_map comp_def)

lemma keys_distinct:
  assumes injED: "inj_on ED {..<ND}"
    and injId: "\<forall>i<ND. inj_on (userId i) {..<NU i}"
  shows "distinct (map (\<lambda>p. (ED (fst p), createUser userId (fst p) (snd p))) (positions NU ND))"
proof -
  have "inj_on (\<lambda>p. (ED (fst p), createUser userId (fst p) (snd p))) (set (positions NU ND))"
  proof (rule inj_onI)
    fix p q
    assume p: "p \<in> set (positions NU ND)" and q: "q \<in> set (positions NU ND)"
      and e: "(ED (fst p), createUser userId (fst p) (snd p))
            = (ED (fst q), createUser userId (fst q) (snd q))"
    have bp: "fst p < ND" "snd p < NU (fst p)" and bq: "fst q < ND" "snd q < NU (fst q)"
      using p q by (auto simp: set_positions)
    have 1: "fst p = fst q"
      using inj_onD[OF injED, of "fst p" "fst q"] e bp bq by simp
    have "userId (fst p) (snd p) = userId (fst p) (snd q)"
      using e 1 createUser_inj[of userId "fst p" "snd p" "fst p" "snd q"] by simp
    moreover have "inj_on (userId (fst p)) {..<NU (fst p)}" using injId bp by blast
    ultimately have "snd p = snd q"
      using bp bq 1 by (auto dest: inj_onD)
    with 1 show "p = q" by (simp add: prod_eq_iff)
  qed
  then show ?thesis
    by (simp add: distinct_map distinct_positions)
qed

lemma assembleRing_result:
  assumes injED: "inj_on ED {..<ND}"
    and injId: "\<forall>i<ND. inj_on (userId i) {..<NU i}"
    and pos: "\<forall>i<ND. 0 < NU i"
  shows "assembleRing ED userId contentOf ND NU =
     Inr ((populate ED userId ND NU initialAssembly)
            \<lparr> instructions := map (entryFor ED userId contentOf ND NU) (positions NU ND) \<rparr>)"
proof -
  let ?s = "populate ED userId ND NU initialAssembly"
  have p: "populated ED userId NU ND ?s"
    using populated_populate[OF injED injId] .
  then have ep: "\<forall>i<ND. EPop ?s (ED i) = map (createUser userId i) [0..<NU i]"
    and i0: "instructions ?s = []"
    by (simp_all add: populated_def)
  have "fold (\<lambda>p. insert_table (ED (fst p), createUser userId (fst p) (snd p))
                   (instructionFor ED userId contentOf ND NU (fst p) (snd p)))
          (positions NU ND) []
        = map (entryFor ED userId contentOf ND NU) (positions NU ND)"
    using fold_insert_table_fresh[OF keys_distinct[OF injED injId], of "[]"
        "\<lambda>p. instructionFor ED userId contentOf ND NU (fst p) (snd p)"]
    by (simp add: entryFor_def[abs_def])
  then show ?thesis
    unfolding assembleRing_def generateInstructions_def
    by (simp add: emit_all[OF ep pos order_refl] i0 fold_positions)
qed


lemma assembleRing_ok:
  assumes injED: "inj_on ED {..<ND}"
    and injId: "\<forall>i<ND. inj_on (userId i) {..<NU i}"
    and pos: "\<forall>i<ND. 0 < NU i"
  shows "\<exists>r. assembleRing ED userId contentOf ND NU = Inr r
     \<and> (\<forall>i<ND. EPop r (ED i) = map (createUser userId i) [0..<NU i])
     \<and> (\<forall>i<ND. population r (ED i) =
            \<lparr> toConnect = map (\<lambda>j. (userId i j, createUser userId i j)) [0..<NU i],
              connected = [] \<rparr>)
     \<and> (\<forall>d. d \<notin> ED ` {..<ND} \<longrightarrow> population r d = \<lparr> toConnect = [], connected = [] \<rparr>)
     \<and> instructions r = map (entryFor ED userId contentOf ND NU) (positions NU ND)"
  using populated_populate[OF injED injId] assembleRing_result[OF injED injId pos, of contentOf]
  by (simp add: populated_def)

lemma keys_entries:
  "map fst (map (entryFor ED userId contentOf ND NU) ps)
   = map (\<lambda>p. (ED (fst p), createUser userId (fst p) (snd p))) ps"
  by (simp add: entryFor_def)

lemma lookup_entry:
  assumes injED: "inj_on ED {..<ND}"
    and injId: "\<forall>i<ND. inj_on (userId i) {..<NU i}"
    and i: "i < ND" and j: "j < NU i"
  shows "get_table (map (entryFor ED userId contentOf ND NU) (positions NU ND))
           (ED i, createUser userId i j)
         = Some (instructionFor ED userId contentOf ND NU i j)"
proof -
  have d: "distinct (map fst (map (entryFor ED userId contentOf ND NU) (positions NU ND)))"
    unfolding keys_entries using keys_distinct[OF injED injId] .
  have "(i, j) \<in> set (positions NU ND)"
    using i j by (simp add: set_positions)
  then have "entryFor ED userId contentOf ND NU (i, j)
       \<in> set (map (entryFor ED userId contentOf ND NU) (positions NU ND))"
    by simp
  then show ?thesis
    unfolding get_table_def using d by (simp add: entryFor_def)
qed

lemma lookup_user:
  assumes injId: "inj_on (userId i) {..<n}" and j: "j < n"
  shows "get_table (map (\<lambda>j. (userId i j, createUser userId i j)) [0..<n]) (userId i j)
         = Some (createUser userId i j)"
proof -
  have "distinct (map fst (map (\<lambda>j. (userId i j, createUser userId i j)) [0..<n]))"
    using injId by (simp add: distinct_map comp_def inj_on_def)
  moreover have "(userId i j, createUser userId i j)
      \<in> set (map (\<lambda>j. (userId i j, createUser userId i j)) [0..<n])"
    using j by auto
  ultimately show ?thesis
    unfolding get_table_def by simp
qed


subsection \<open>Names and the example parameters\<close>

lemma NOM_0: "NOM 0 = ''0''"
  by (subst NOM.simps) simp

lemma NOM_1: "NOM (Suc 0) = ''1''"
  by (subst NOM.simps) simp

lemma NOM_pair: "2 \<le> n \<Longrightarrow> NOM n = NOM (n div 2) @ (if n mod 2 = 0 then ''0'' else ''1'')"
  by (subst NOM.simps) simp

lemma NOM_non_vide: "NOM n \<noteq> []"
  by (subst NOM.simps) simp

lemma NOM_petit: "n < 2 \<Longrightarrow> length (NOM n) = 1"
  by (subst NOM.simps) simp

lemma NOM_grand: "2 \<le> n \<Longrightarrow> 2 \<le> length (NOM n)"
proof -
  assume n: "2 \<le> n"
  have "0 < length (NOM (n div 2))" using NOM_non_vide by simp
  then show ?thesis by (auto simp: NOM_pair[OF n] Suc_le_eq)
qed

text \<open>Two items with the same binary name are the same item.\<close>

lemma NOM_inj: "NOM a = NOM b \<Longrightarrow> a = b"
proof (induction a arbitrary: b rule: less_induct)
  case (less a)
  show ?case
  proof (cases "a < 2")
    case True
    then have "length (NOM b) = 1" using less.prems NOM_petit[of a] by simp
    then have b: "b < 2" using NOM_grand[of b] by (cases "b < 2") auto
    from True b less.prems show ?thesis
      by (auto simp: less_2_cases_iff NOM_0 NOM_1)
  next
    case False
    then have a: "2 \<le> a" by simp
    then have "2 \<le> length (NOM b)" using NOM_grand[of a] less.prems by simp
    then have b: "2 \<le> b" using NOM_petit[of b] by (cases "b < 2") auto
    from less.prems have e: "NOM (a div 2) @ (if a mod 2 = 0 then ''0'' else ''1'')
        = NOM (b div 2) @ (if b mod 2 = 0 then ''0'' else ''1'')"
      by (simp add: NOM_pair[OF a] NOM_pair[OF b])
    then have "NOM (a div 2) = NOM (b div 2)" and m: "a mod 2 = b mod 2"
      by (auto split: if_splits)
    moreover have "a div 2 < a" using a by simp
    ultimately have "a div 2 = b div 2" using less.IH by blast
    with m show ?thesis by (metis div_mult_mod_eq)
  qed
qed

lemma inj_ED_exemple: "inj_on ED_exemple A"
  by (simp add: inj_on_def ED_exemple_def)

lemma inj_userId_exemple: "inj_on (userId_exemple i) A"
  by (auto simp: inj_on_def userId_exemple_def dest: NOM_inj)

text \<open>A binary name is made of the digits \<open>0\<close> and \<open>1\<close>, so it holds no dot.\<close>

lemma NOM_chiffres: "set (NOM n) \<subseteq> {CHR ''0'', CHR ''1''}"
proof (induction n rule: less_induct)
  case (less n)
  show ?case
  proof (cases "n < 2")
    case True
    then show ?thesis by (subst NOM.simps) simp
  next
    case False
    then have n: "2 \<le> n" by simp
    then have "n div 2 < n" by simp
    then have "set (NOM (n div 2)) \<subseteq> {CHR ''0'', CHR ''1''}" by (rule less.IH)
    then show ?thesis by (auto simp: NOM_pair[OF n])
  qed
qed

lemma NOM_sans_point: "CHR ''.'' \<notin> set (NOM n)"
  using NOM_chiffres[of n] by auto

lemma separateur:
  "c \<notin> set xs \<Longrightarrow> c \<notin> set xs' \<Longrightarrow> xs @ c # ys = xs' @ c # ys' \<Longrightarrow> xs = xs' \<and> ys = ys'"
proof (induction xs arbitrary: xs')
  case Nil
  then show ?case by (cases xs') auto
next
  case (Cons x xs)
  then show ?case by (cases xs') auto
qed

text \<open>
  The derivation of the assembler gives two users the same identifier only if they are
  the same user of the same domain.
\<close>

lemma deriveUserId_inj:
  assumes "deriveUserId i j = deriveUserId i' j'"
  shows "i = i' \<and> j = j'"
proof -
  from assms have "NOM i @ CHR ''.'' # NOM j = NOM i' @ CHR ''.'' # NOM j'"
    by (simp add: deriveUserId_def)
  from separateur[OF NOM_sans_point NOM_sans_point this]
  show ?thesis by (auto dest: NOM_inj)
qed

lemma inj_deriveUserId: "inj_on (deriveUserId i) A"
  by (auto simp: inj_on_def dest: deriveUserId_inj)

lemma NU_scenario4_pos: "\<forall>i<4. 0 < NU_scenario4 i"
  by (simp add: NU_scenario4_def numeral_eq_Suc All_less_Suc)

lemma NU_scenario5_pos: "\<forall>i<5. 0 < NU_scenario5 i"
  by (simp add: NU_scenario5_def numeral_eq_Suc All_less_Suc)

subsection \<open>The algorithm run with any derivation of identifiers\<close>

text \<open>
  The two lemmas of this subsection are about \<open>assembleRing\<close> with the derivation
  \<open>userId\<close> left open. They need the users of one domain to have distinct identifiers;
  that is a condition on the derivation, which the assembler has to meet, and not one
  that the specification lets a caller assume. The enumeration \<open>ED\<close> is one-to-one on
  the positions \<open>[0, ND)\<close>, as the specification says.
\<close>

lemma counts_for_distinct_identifiers:
  assumes "2 \<le> ND"
    and pos: "\<forall>i<ND. 0 < NU i"
    and injED: "inj_on ED {..<ND}"
    and injId: "\<forall>i<ND. inj_on (userId i) {..<NU i}"
  shows "\<exists>r. assembleRing ED userId contentOf ND NU = Inr r
     \<and> (\<forall>i<ND. size_table (toConnect (population r (ED i))) = NU i)
     \<and> (\<forall>d. d \<notin> ED ` {..<ND} \<longrightarrow> size_table (toConnect (population r d)) = 0)
     \<and> (\<Sum>i<ND. size_table (toConnect (population r (ED i)))) = (\<Sum>i<ND. NU i)
     \<and> size_table (instructions r) = (\<Sum>i<ND. NU i)
     \<and> distinct (map fst (instructions r))
     \<and> (\<forall>i<ND. \<forall>j<NU i.
           get_table (toConnect (population r (ED i))) (userId i j) = Some (createUser userId i j)
           \<and> (\<exists>c. get_table (instructions r) (ED i, createUser userId i j) = Some c
                  \<and> senderDomain c = ED i \<and> senderUser c = createUser userId i j))
     \<and> (\<forall>e\<in>set (instructions r). \<exists>i<ND. \<exists>j<NU i. fst e = (ED i, createUser userId i j))"
proof -
  from assembleRing_ok[OF injED injId pos, of contentOf]
  obtain r where r: "assembleRing ED userId contentOf ND NU = Inr r"
    and pop: "\<forall>i<ND. population r (ED i) =
            \<lparr> toConnect = map (\<lambda>j. (userId i j, createUser userId i j)) [0..<NU i],
              connected = [] \<rparr>"
    and out: "\<forall>d. d \<notin> ED ` {..<ND} \<longrightarrow> population r d = \<lparr> toConnect = [], connected = [] \<rparr>"
    and ins: "instructions r = map (entryFor ED userId contentOf ND NU) (positions NU ND)"
    by blast
  have 1: "\<forall>i<ND. size_table (toConnect (population r (ED i))) = NU i"
    using pop by (simp add: size_table_def)
  have 2: "\<forall>d. d \<notin> ED ` {..<ND} \<longrightarrow> size_table (toConnect (population r d)) = 0"
    using out by (simp add: size_table_def)
  have 3: "(\<Sum>i<ND. size_table (toConnect (population r (ED i)))) = (\<Sum>i<ND. NU i)"
    using 1 by simp
  have 4: "size_table (instructions r) = (\<Sum>i<ND. NU i)"
    by (simp add: ins size_table_def length_positions)
  have 5: "distinct (map fst (instructions r))"
    unfolding ins keys_entries using keys_distinct[OF injED injId] .
  have 6: "get_table (toConnect (population r (ED i))) (userId i j) = Some (createUser userId i j)
           \<and> (\<exists>c. get_table (instructions r) (ED i, createUser userId i j) = Some c
                  \<and> senderDomain c = ED i \<and> senderUser c = createUser userId i j)"
    if "i < ND" "j < NU i" for i j
  proof -
    have "inj_on (userId i) {..<NU i}" using injId that by blast
    from lookup_user[of userId i "NU i" j, OF this that(2)]
    have "get_table (toConnect (population r (ED i))) (userId i j)
        = Some (createUser userId i j)"
      using pop that by simp
    moreover have "get_table (instructions r) (ED i, createUser userId i j)
        = Some (instructionFor ED userId contentOf ND NU i j)"
      unfolding ins using lookup_entry[OF injED injId that] .
    ultimately show ?thesis
      by (simp add: instructionFor_def Let_def)
  qed
  have 7: "\<forall>e\<in>set (instructions r). \<exists>i<ND. \<exists>j<NU i. fst e = (ED i, createUser userId i j)"
    unfolding ins by (auto simp: set_positions entryFor_def)
  from r 1 2 3 4 5 6 7 show ?thesis by blast
qed

lemma receiver_for_distinct_identifiers:
  assumes "2 \<le> ND"
    and pos: "\<forall>i<ND. 0 < NU i"
    and injED: "inj_on ED {..<ND}"
    and injId: "\<forall>i<ND. inj_on (userId i) {..<NU i}"
  shows "\<exists>r. assembleRing ED userId contentOf ND NU = Inr r
     \<and> (\<forall>i<ND. \<forall>j<NU i. \<exists>c.
           get_table (instructions r) (ED i, EPop r (ED i) ! j) = Some c
           \<and> senderDomain c = ED i
           \<and> senderUser c = EPop r (ED i) ! j
           \<and> receiverDomain c = ED ((i + ND div 2) mod ND)
           \<and> (i + j) mod NU ((i + ND div 2) mod ND)
               < length (EPop r (ED ((i + ND div 2) mod ND)))
           \<and> receiverUser c =
               EPop r (ED ((i + ND div 2) mod ND)) ! ((i + j) mod NU ((i + ND div 2) mod ND))
           \<and> get_table (toConnect (population r (ED ((i + ND div 2) mod ND))))
                (FormatSommetTchat.ID (receiverUser c)) = Some (receiverUser c))
     \<and> (\<forall>e\<in>set (instructions r). \<exists>i<ND. \<exists>j<NU i. fst e = (ED i, EPop r (ED i) ! j))"
proof -
  from assembleRing_ok[OF injED injId pos, of contentOf]
  obtain r where r: "assembleRing ED userId contentOf ND NU = Inr r"
    and ep: "\<forall>i<ND. EPop r (ED i) = map (createUser userId i) [0..<NU i]"
    and pop: "\<forall>i<ND. population r (ED i) =
            \<lparr> toConnect = map (\<lambda>j. (userId i j, createUser userId i j)) [0..<NU i],
              connected = [] \<rparr>"
    and ins: "instructions r = map (entryFor ED userId contentOf ND NU) (positions NU ND)"
    by blast
  have at: "EPop r (ED i) ! j = createUser userId i j" if "i < ND" "j < NU i" for i j
    using ep that by simp
  have 1: "\<exists>c. get_table (instructions r) (ED i, EPop r (ED i) ! j) = Some c
           \<and> senderDomain c = ED i
           \<and> senderUser c = EPop r (ED i) ! j
           \<and> receiverDomain c = ED ((i + ND div 2) mod ND)
           \<and> (i + j) mod NU ((i + ND div 2) mod ND)
               < length (EPop r (ED ((i + ND div 2) mod ND)))
           \<and> receiverUser c =
               EPop r (ED ((i + ND div 2) mod ND)) ! ((i + j) mod NU ((i + ND div 2) mod ND))
           \<and> get_table (toConnect (population r (ED ((i + ND div 2) mod ND))))
                (FormatSommetTchat.ID (receiverUser c)) = Some (receiverUser c)"
    if i: "i < ND" and j: "j < NU i" for i j
  proof -
    define k where "k = (i + ND div 2) mod ND"
    define m where "m = (i + j) mod NU k"
    have k: "k < ND" using i by (simp add: k_def)
    then have "0 < NU k" using pos by blast
    then have m: "m < NU k" by (simp add: m_def)
    have len: "length (EPop r (ED k)) = NU k" using ep k by simp
    have injk: "inj_on (userId k) {..<NU k}" using injId k by blast
    have l1: "get_table (instructions r) (ED i, EPop r (ED i) ! j)
        = Some (instructionFor ED userId contentOf ND NU i j)"
      unfolding ins at[OF i j] using lookup_entry[OF injED injId i j] .
    have l2: "get_table (toConnect (population r (ED k))) (userId k m)
        = Some (createUser userId k m)"
      using lookup_user[of userId k "NU k" m, OF injk m] pop k by simp
    have f: "senderDomain (instructionFor ED userId contentOf ND NU i j) = ED i"
      "senderUser (instructionFor ED userId contentOf ND NU i j) = createUser userId i j"
      "receiverDomain (instructionFor ED userId contentOf ND NU i j) = ED k"
      "receiverUser (instructionFor ED userId contentOf ND NU i j) = createUser userId k m"
      by (simp_all add: instructionFor_def Let_def k_def m_def)
    show ?thesis
      using l1 l2 f m len at[OF i j] at[OF k m]
      unfolding k_def[symmetric] m_def[symmetric]
      by (simp add: ID_createUser)
  qed
  have 2: "\<forall>e\<in>set (instructions r). \<exists>i<ND. \<exists>j<NU i. fst e = (ED i, EPop r (ED i) ! j)"
  proof
    fix e
    assume "e \<in> set (instructions r)"
    then obtain i j where "i < ND" "j < NU i" "fst e = (ED i, createUser userId i j)"
      unfolding ins by (auto simp: set_positions entryFor_def)
    then show "\<exists>i<ND. \<exists>j<NU i. fst e = (ED i, EPop r (ED i) ! j)"
      using at by metis
  qed
  from r 1 2 show ?thesis by blast
qed

subsection \<open>The claims on the assembler\<close>

text \<open>
  The first two theorems are about \<open>ringAssembler\<close>, the assembler with the identifiers
  it derives itself: they assume nothing on identifiers. The two scenarios are stated for
  \<open>assembleRing\<close> with the derivation left open, which covers \<open>ringAssembler\<close>.
\<close>

text \<open>
  Claim C3. For every \<open>ND \<ge> 2\<close> and every \<open>NU\<close> that is positive on \<open>[0, ND)\<close>, the
  assembler succeeds; the domain at position \<open>i\<close> holds exactly \<open>NU i\<close> users to connect
  and no other domain holds any, so that the users are \<open>\<Sum> NU i\<close> in all; the
  instruction table has \<open>\<Sum> NU i\<close> entries with pairwise distinct (domain, user) keys,
  every user has the instruction stored under its own key, and every key is a user.
\<close>

theorem ringAssembler_counts:
  assumes "2 \<le> ND"
    and pos: "\<forall>i<ND. 0 < NU i"
    and injED: "inj_on ED {..<ND}"
  shows "\<exists>r. ringAssembler ED contentOf ND NU = Inr r
     \<and> (\<forall>i<ND. size_table (toConnect (population r (ED i))) = NU i)
     \<and> (\<forall>d. d \<notin> ED ` {..<ND} \<longrightarrow> size_table (toConnect (population r d)) = 0)
     \<and> (\<Sum>i<ND. size_table (toConnect (population r (ED i)))) = (\<Sum>i<ND. NU i)
     \<and> size_table (instructions r) = (\<Sum>i<ND. NU i)
     \<and> distinct (map fst (instructions r))
     \<and> (\<forall>i<ND. \<forall>j<NU i.
           get_table (toConnect (population r (ED i))) (deriveUserId i j)
             = Some (createUser deriveUserId i j)
           \<and> (\<exists>c. get_table (instructions r) (ED i, createUser deriveUserId i j) = Some c
                  \<and> senderDomain c = ED i \<and> senderUser c = createUser deriveUserId i j))
     \<and> (\<forall>e\<in>set (instructions r). \<exists>i<ND. \<exists>j<NU i.
           fst e = (ED i, createUser deriveUserId i j))"
proof -
  have injId: "\<forall>i<ND. inj_on (deriveUserId i) {..<NU i}"
    by (simp add: inj_deriveUserId)
  from counts_for_distinct_identifiers[OF assms(1) pos injED injId, of contentOf]
  show ?thesis unfolding ringAssembler_def .
qed

theorem ringAssembler_counts_witness:
  "2 \<le> (3::nat)
   \<and> inj_on ED_exemple {..<3}
   \<and> (\<exists>r. ringAssembler ED_exemple contentOf_exemple 3 Suc = Inr r
     \<and> (\<forall>i<3. size_table (toConnect (population r (ED_exemple i))) = Suc i)
     \<and> (\<forall>d. d \<notin> ED_exemple ` {..<3} \<longrightarrow> size_table (toConnect (population r d)) = 0)
     \<and> (\<Sum>i<3. size_table (toConnect (population r (ED_exemple i)))) = (\<Sum>i<3. Suc i)
     \<and> size_table (instructions r) = (\<Sum>i<3. Suc i)
     \<and> distinct (map fst (instructions r))
     \<and> (\<forall>i<3. \<forall>j<Suc i.
           get_table (toConnect (population r (ED_exemple i))) (deriveUserId i j)
             = Some (createUser deriveUserId i j)
           \<and> (\<exists>c. get_table (instructions r) (ED_exemple i, createUser deriveUserId i j) = Some c
                  \<and> senderDomain c = ED_exemple i \<and> senderUser c = createUser deriveUserId i j))
     \<and> (\<forall>e\<in>set (instructions r). \<exists>i<3. \<exists>j<Suc i.
           fst e = (ED_exemple i, createUser deriveUserId i j)))
   \<and> (\<Sum>i<3. Suc i) = (6::nat)
   \<and> (case ringAssembler ED_exemple contentOf_exemple 3 Suc of
         Inl e \<Rightarrow> False
       | Inr r \<Rightarrow> size_table (instructions r) = 6
           \<and> map (\<lambda>i. size_table (toConnect (population r (ED_exemple i)))) [0, 1, 2] = [1, 2, 3])"
proof -
  have h1: "2 \<le> (3::nat)" by simp
  have h2: "\<forall>i<3. 0 < Suc i" by simp
  have h3: "inj_on ED_exemple {..<3}" by (rule inj_ED_exemple)
  have s: "(\<Sum>i<3. Suc i) = (6::nat)" by (simp add: numeral_eq_Suc)
  have v: "case ringAssembler ED_exemple contentOf_exemple 3 Suc of
         Inl e \<Rightarrow> False
       | Inr r \<Rightarrow> size_table (instructions r) = 6
           \<and> map (\<lambda>i. size_table (toConnect (population r (ED_exemple i)))) [0, 1, 2] = [1, 2, 3]"
    by code_simp
  from ringAssembler_counts[OF h1 h2 h3, of contentOf_exemple] h1 h3 s v
  show ?thesis by blast
qed

text \<open>
  Claim C4. For every \<open>ND \<ge> 2\<close> and every \<open>NU\<close> that is positive on \<open>[0, ND)\<close>, the
  assembler succeeds and, for every sender position \<open>(i, j)\<close>, the instruction stored for
  that sender addresses the domain at position \<open>k = (i + ND div 2) mod ND\<close> and, in it,
  the user \<open>EPop (ED k)\<close> at index \<open>(i + j) mod NU k\<close>; the index is within the
  enumeration, and the receiver is found under its identifier in the population of the
  domain \<open>ED k\<close>. The table holds no instruction besides those of the sender positions.
\<close>

theorem ringAssembler_receiver:
  assumes "2 \<le> ND"
    and pos: "\<forall>i<ND. 0 < NU i"
    and injED: "inj_on ED {..<ND}"
  shows "\<exists>r. ringAssembler ED contentOf ND NU = Inr r
     \<and> (\<forall>i<ND. \<forall>j<NU i. \<exists>c.
           get_table (instructions r) (ED i, EPop r (ED i) ! j) = Some c
           \<and> senderDomain c = ED i
           \<and> senderUser c = EPop r (ED i) ! j
           \<and> receiverDomain c = ED ((i + ND div 2) mod ND)
           \<and> (i + j) mod NU ((i + ND div 2) mod ND)
               < length (EPop r (ED ((i + ND div 2) mod ND)))
           \<and> receiverUser c =
               EPop r (ED ((i + ND div 2) mod ND)) ! ((i + j) mod NU ((i + ND div 2) mod ND))
           \<and> get_table (toConnect (population r (ED ((i + ND div 2) mod ND))))
                (FormatSommetTchat.ID (receiverUser c)) = Some (receiverUser c))
     \<and> (\<forall>e\<in>set (instructions r). \<exists>i<ND. \<exists>j<NU i. fst e = (ED i, EPop r (ED i) ! j))"
proof -
  have injId: "\<forall>i<ND. inj_on (deriveUserId i) {..<NU i}"
    by (simp add: inj_deriveUserId)
  from receiver_for_distinct_identifiers[OF assms(1) pos injED injId, of contentOf]
  show ?thesis unfolding ringAssembler_def .
qed

theorem ringAssembler_receiver_witness:
  "2 \<le> (3::nat)
   \<and> inj_on ED_exemple {..<3}
   \<and> (\<exists>r. ringAssembler ED_exemple contentOf_exemple 3 Suc = Inr r
     \<and> (\<forall>i<3. \<forall>j<Suc i. \<exists>c.
           get_table (instructions r) (ED_exemple i, EPop r (ED_exemple i) ! j) = Some c
           \<and> senderDomain c = ED_exemple i
           \<and> senderUser c = EPop r (ED_exemple i) ! j
           \<and> receiverDomain c = ED_exemple ((i + 3 div 2) mod 3)
           \<and> (i + j) mod Suc ((i + 3 div 2) mod 3)
               < length (EPop r (ED_exemple ((i + 3 div 2) mod 3)))
           \<and> receiverUser c =
               EPop r (ED_exemple ((i + 3 div 2) mod 3)) ! ((i + j) mod Suc ((i + 3 div 2) mod 3))
           \<and> get_table (toConnect (population r (ED_exemple ((i + 3 div 2) mod 3))))
                (FormatSommetTchat.ID (receiverUser c)) = Some (receiverUser c))
     \<and> (\<forall>e\<in>set (instructions r). \<exists>i<3. \<exists>j<Suc i.
           fst e = (ED_exemple i, EPop r (ED_exemple i) ! j)))
   \<and> (case ringAssembler ED_exemple contentOf_exemple 3 Suc of
         Inl e \<Rightarrow> False
       | Inr r \<Rightarrow>
           map (\<lambda>c. (senderDomain c, pseudo (senderUser c),
                     receiverDomain c, pseudo (receiverUser c)))
               (map snd (instructions r))
           = [(0, ''0'', 1, ''0''),
              (1, ''0'', 2, ''1''), (1, ''1'', 2, ''10''),
              (2, ''0'', 0, ''0''), (2, ''1'', 0, ''0''), (2, ''10'', 0, ''0'')])"
proof -
  have h1: "2 \<le> (3::nat)" by simp
  have h2: "\<forall>i<3. 0 < Suc i" by simp
  have h3: "inj_on ED_exemple {..<3}" by (rule inj_ED_exemple)
  have v: "case ringAssembler ED_exemple contentOf_exemple 3 Suc of
         Inl e \<Rightarrow> False
       | Inr r \<Rightarrow>
           map (\<lambda>c. (senderDomain c, pseudo (senderUser c),
                     receiverDomain c, pseudo (receiverUser c)))
               (map snd (instructions r))
           = [(0, ''0'', 1, ''0''),
              (1, ''0'', 2, ''1''), (1, ''1'', 2, ''10''),
              (2, ''0'', 0, ''0''), (2, ''1'', 0, ''0''), (2, ''10'', 0, ''0'')]"
    by code_simp
  from ringAssembler_receiver[OF h1 h2 h3, of contentOf_exemple] h1 h3 v
  show ?thesis by blast
qed

text \<open>
  Claim C5. For \<open>ND = 5\<close> and \<open>NU = [2, 1, 1, 1, 1]\<close> the ring offset is \<open>5 div 2 = 2\<close>,
  so the domain at position \<open>0\<close> faces the domain at position \<open>2\<close>, which has a single
  user. The receiver indices \<open>(0 + 0) mod 1\<close> and \<open>(0 + 1) mod 1\<close> are both \<open>0\<close>: the
  two users of the domain at position \<open>0\<close>, who are different users with an instruction
  each, both get that single user as receiver.
\<close>

theorem assembleRing_scenario5:
  assumes injED: "inj_on ED {..<5}"
    and injId: "\<forall>i<5. inj_on (userId i) {..<NU_scenario5 i}"
  shows "\<exists>r c0 c1. assembleRing ED userId contentOf 5 NU_scenario5 = Inr r
     \<and> (5::nat) div 2 = 2
     \<and> (0 + 5 div 2) mod 5 = (2::nat)
     \<and> (0 + 0) mod NU_scenario5 2 = 0
     \<and> (0 + 1) mod NU_scenario5 2 = 0
     \<and> EPop r (ED 0) = [createUser userId 0 0, createUser userId 0 1]
     \<and> EPop r (ED 2) = [createUser userId 2 0]
     \<and> get_table (instructions r) (ED 0, EPop r (ED 0) ! 0) = Some c0
     \<and> get_table (instructions r) (ED 0, EPop r (ED 0) ! 1) = Some c1
     \<and> senderUser c0 = EPop r (ED 0) ! 0
     \<and> senderUser c1 = EPop r (ED 0) ! 1
     \<and> senderUser c0 \<noteq> senderUser c1
     \<and> receiverDomain c0 = ED 2 \<and> receiverUser c0 = EPop r (ED 2) ! 0
     \<and> receiverDomain c1 = ED 2 \<and> receiverUser c1 = EPop r (ED 2) ! 0"
proof -
  from assembleRing_ok[OF injED injId NU_scenario5_pos, of contentOf]
  obtain r where r: "assembleRing ED userId contentOf 5 NU_scenario5 = Inr r"
    and ep: "\<forall>i<5. EPop r (ED i) = map (createUser userId i) [0..<NU_scenario5 i]"
    and ins: "instructions r = map (entryFor ED userId contentOf 5 NU_scenario5) (positions NU_scenario5 5)"
    by blast
  have n0: "NU_scenario5 0 = 2" and n2: "NU_scenario5 2 = 1"
    by (simp_all add: NU_scenario5_def)
  have e0: "EPop r (ED 0) = [createUser userId 0 0, createUser userId 0 1]"
    using ep by (simp add: n0 upt_rec)
  have e2: "EPop r (ED 2) = [createUser userId 2 0]"
    using ep by (simp add: n2)
  have l0: "get_table (instructions r) (ED 0, createUser userId 0 0)
      = Some (instructionFor ED userId contentOf 5 NU_scenario5 0 0)"
    unfolding ins using lookup_entry[OF injED injId, of 0 0] by (simp add: n0)
  have l1: "get_table (instructions r) (ED 0, createUser userId 0 1)
      = Some (instructionFor ED userId contentOf 5 NU_scenario5 0 1)"
    unfolding ins using lookup_entry[OF injED injId, of 0 1] by (simp add: n0)
  have "inj_on (userId 0) {..<2}" using injId n0 by (metis zero_less_numeral)
  then have "userId 0 0 \<noteq> userId 0 1"
    using inj_onD[of "userId 0" "{..<2}" 0 1] by auto
  then have d: "createUser userId 0 0 \<noteq> createUser userId 0 1"
    using createUser_inj by blast
  have k: "(0 + 5 div 2) mod 5 = (2::nat)" by simp
  have m0: "(0 + 0) mod NU_scenario5 2 = 0" and m1: "(0 + 1) mod NU_scenario5 2 = 0"
    by (simp_all add: n2)
  have i0: "instructionFor ED userId contentOf 5 NU_scenario5 0 0 =
      \<lparr> senderDomain = ED 0, senderUser = createUser userId 0 0,
        receiverDomain = ED 2, receiverUser = createUser userId 2 0,
        content = contentOf 0 0 \<rparr>"
    unfolding instructionFor_def Let_def k m0 ..
  have i1: "instructionFor ED userId contentOf 5 NU_scenario5 0 1 =
      \<lparr> senderDomain = ED 0, senderUser = createUser userId 0 1,
        receiverDomain = ED 2, receiverUser = createUser userId 2 0,
        content = contentOf 0 1 \<rparr>"
    unfolding instructionFor_def Let_def k m1 ..
  have a0: "EPop r (ED 0) ! 0 = createUser userId 0 0"
    and a1: "EPop r (ED 0) ! 1 = createUser userId 0 1"
    and a2: "EPop r (ED 2) ! 0 = createUser userId 2 0"
    by (simp_all add: e0 e2)
  have "(5::nat) div 2 = 2" by simp
  then show ?thesis
    using r k m0 m1 e0 e2 l0[unfolded i0] l1[unfolded i1] d
    unfolding a0 a1 a2
    by (intro exI[of _ r] exI[of _ "\<lparr> senderDomain = ED 0, senderUser = createUser userId 0 0,
        receiverDomain = ED 2, receiverUser = createUser userId 2 0,
        content = contentOf 0 0 \<rparr>"] exI[of _ "\<lparr> senderDomain = ED 0, senderUser = createUser userId 0 1,
        receiverDomain = ED 2, receiverUser = createUser userId 2 0,
        content = contentOf 0 1 \<rparr>"]) simp
qed

theorem assembleRing_scenario5_witness:
  "inj_on ED_exemple {..<5}
   \<and> inj_on (userId_exemple 0) {..<NU_scenario5 0}
   \<and> (\<exists>r c0 c1. assembleRing ED_exemple userId_exemple contentOf_exemple 5 NU_scenario5 = Inr r
     \<and> (5::nat) div 2 = 2
     \<and> (0 + 5 div 2) mod 5 = (2::nat)
     \<and> (0 + 0) mod NU_scenario5 2 = 0
     \<and> (0 + 1) mod NU_scenario5 2 = 0
     \<and> EPop r (ED_exemple 0) = [createUser userId_exemple 0 0, createUser userId_exemple 0 1]
     \<and> EPop r (ED_exemple 2) = [createUser userId_exemple 2 0]
     \<and> get_table (instructions r) (ED_exemple 0, EPop r (ED_exemple 0) ! 0) = Some c0
     \<and> get_table (instructions r) (ED_exemple 0, EPop r (ED_exemple 0) ! 1) = Some c1
     \<and> senderUser c0 = EPop r (ED_exemple 0) ! 0
     \<and> senderUser c1 = EPop r (ED_exemple 0) ! 1
     \<and> senderUser c0 \<noteq> senderUser c1
     \<and> receiverDomain c0 = ED_exemple 2 \<and> receiverUser c0 = EPop r (ED_exemple 2) ! 0
     \<and> receiverDomain c1 = ED_exemple 2 \<and> receiverUser c1 = EPop r (ED_exemple 2) ! 0)"
proof -
  have h1: "inj_on ED_exemple {..<5}" by (rule inj_ED_exemple)
  have h2: "\<forall>i<5. inj_on (userId_exemple i) {..<NU_scenario5 i}"
    by (simp add: inj_userId_exemple)
  have h3: "inj_on (userId_exemple 0) {..<NU_scenario5 0}"
    by (rule inj_userId_exemple)
  from assembleRing_scenario5[OF h1 h2, of contentOf_exemple] h1 h3
  show ?thesis by blast
qed

text \<open>
  Claim C6. For \<open>ND = 4\<close> and \<open>NU = [1, 1, 1, 1]\<close> the assembler produces four users and
  four instructions. Listed by sender, the pairs (sender domain, receiver domain) are the
  positions \<open>(0, 2)\<close>, \<open>(1, 3)\<close>, \<open>(2, 0)\<close>, \<open>(3, 1)\<close> and no other; the user of the
  domain at position \<open>0\<close> is paired with the user at index \<open>(0 + 0) mod 1 = 0\<close> of the
  domain at position \<open>(0 + 2) mod 4 = 2\<close>.
\<close>

theorem assembleRing_scenario4:
  assumes injED: "inj_on ED {..<4}"
  shows "\<exists>r. assembleRing ED userId contentOf 4 NU_scenario4 = Inr r
     \<and> (\<Sum>i<4. size_table (toConnect (population r (ED i)))) = 4
     \<and> size_table (instructions r) = 4
     \<and> map (\<lambda>e. (senderDomain (snd e), receiverDomain (snd e))) (instructions r)
         = [(ED 0, ED 2), (ED 1, ED 3), (ED 2, ED 0), (ED 3, ED 1)]
     \<and> set (map (\<lambda>e. (senderDomain (snd e), receiverDomain (snd e))) (instructions r))
         = {(ED 0, ED 2), (ED 1, ED 3), (ED 2, ED 0), (ED 3, ED 1)}
     \<and> (0 + 4 div 2) mod 4 = (2::nat)
     \<and> (0 + 0) mod NU_scenario4 2 = 0
     \<and> (\<exists>c. get_table (instructions r) (ED 0, EPop r (ED 0) ! 0) = Some c
            \<and> receiverDomain c = ED 2 \<and> receiverUser c = EPop r (ED 2) ! 0)"
proof -
  have injId: "\<forall>i<4. inj_on (userId i) {..<NU_scenario4 i}"
    by (simp add: NU_scenario4_def numeral_eq_Suc All_less_Suc lessThan_Suc)
  from assembleRing_ok[OF injED injId NU_scenario4_pos, of contentOf]
  obtain r where r: "assembleRing ED userId contentOf 4 NU_scenario4 = Inr r"
    and ep: "\<forall>i<4. EPop r (ED i) = map (createUser userId i) [0..<NU_scenario4 i]"
    and pop: "\<forall>i<4. population r (ED i) =
            \<lparr> toConnect = map (\<lambda>j. (userId i j, createUser userId i j)) [0..<NU_scenario4 i],
              connected = [] \<rparr>"
    and ins: "instructions r = map (entryFor ED userId contentOf 4 NU_scenario4) (positions NU_scenario4 4)"
    by blast
  have n: "NU_scenario4 0 = 1" "NU_scenario4 1 = 1" "NU_scenario4 2 = 1" "NU_scenario4 3 = 1"
    by (simp_all add: NU_scenario4_def)
  have ps: "positions NU_scenario4 4 = [(0, 0), (1, 0), (2, 0), (3, 0)]"
    by code_simp
  have "\<forall>i<4. size_table (toConnect (population r (ED i))) = NU_scenario4 i"
    using pop by (simp add: size_table_def)
  then have "(\<Sum>i<4. size_table (toConnect (population r (ED i)))) = (\<Sum>i<4. NU_scenario4 i)"
    by simp
  also have "\<dots> = 4"
    by (simp add: NU_scenario4_def numeral_eq_Suc)
  finally have 1: "(\<Sum>i<4. size_table (toConnect (population r (ED i)))) = 4" .
  have 2: "size_table (instructions r) = 4"
    by (simp add: ins ps size_table_def)
  have k: "(0 + 4 div 2) mod 4 = (2::nat)" "(1 + 4 div 2) mod 4 = (3::nat)"
    "(2 + 4 div 2) mod 4 = (0::nat)" "(3 + 4 div 2) mod 4 = (1::nat)"
    by simp_all
  have sr: "senderDomain (instructionFor ED userId contentOf 4 NU_scenario4 i j) = ED i"
    "receiverDomain (instructionFor ED userId contentOf 4 NU_scenario4 i j) = ED ((i + 4 div 2) mod 4)"
    for i j
    by (simp_all add: instructionFor_def Let_def)
  have 3: "map (\<lambda>e. (senderDomain (snd e), receiverDomain (snd e))) (instructions r)
         = [(ED 0, ED 2), (ED 1, ED 3), (ED 2, ED 0), (ED 3, ED 1)]"
    unfolding ins ps by (simp only: list.map entryFor_def snd_conv fst_conv sr k)
  have e0: "EPop r (ED 0) = [createUser userId 0 0]" and e2: "EPop r (ED 2) = [createUser userId 2 0]"
    using ep by (simp_all add: n)
  have a0: "EPop r (ED 0) ! 0 = createUser userId 0 0"
    and a2: "EPop r (ED 2) ! 0 = createUser userId 2 0"
    by (simp_all add: e0 e2)
  have m0: "(0 + 0) mod NU_scenario4 2 = 0"
    by (simp add: n)
  have i0: "instructionFor ED userId contentOf 4 NU_scenario4 0 0 =
      \<lparr> senderDomain = ED 0, senderUser = createUser userId 0 0,
        receiverDomain = ED 2, receiverUser = createUser userId 2 0,
        content = contentOf 0 0 \<rparr>"
    unfolding instructionFor_def Let_def k m0 ..
  have 4: "get_table (instructions r) (ED 0, EPop r (ED 0) ! 0)
      = Some \<lparr> senderDomain = ED 0, senderUser = createUser userId 0 0,
        receiverDomain = ED 2, receiverUser = createUser userId 2 0,
        content = contentOf 0 0 \<rparr>"
    unfolding ins a0 i0[symmetric] using lookup_entry[OF injED injId, of 0 0] by (simp add: n)
  have 5: "set (map (\<lambda>e. (senderDomain (snd e), receiverDomain (snd e))) (instructions r))
         = {(ED 0, ED 2), (ED 1, ED 3), (ED 2, ED 0), (ED 3, ED 1)}"
    unfolding 3 by simp
  have 6: "\<exists>c. get_table (instructions r) (ED 0, EPop r (ED 0) ! 0) = Some c
            \<and> receiverDomain c = ED 2 \<and> receiverUser c = EPop r (ED 2) ! 0"
    unfolding 4 a2 by simp
  from r 1 2 3 5 k(1) m0 6 show ?thesis
    by - (intro exI[of _ r] conjI, assumption+)
qed

theorem assembleRing_scenario4_witness:
  "inj_on ED_exemple {..<4}
   \<and> (\<exists>r. assembleRing ED_exemple userId_exemple contentOf_exemple 4 NU_scenario4 = Inr r
     \<and> (\<Sum>i<4. size_table (toConnect (population r (ED_exemple i)))) = 4
     \<and> size_table (instructions r) = 4
     \<and> map (\<lambda>e. (senderDomain (snd e), receiverDomain (snd e))) (instructions r)
         = [(ED_exemple 0, ED_exemple 2), (ED_exemple 1, ED_exemple 3),
            (ED_exemple 2, ED_exemple 0), (ED_exemple 3, ED_exemple 1)]
     \<and> set (map (\<lambda>e. (senderDomain (snd e), receiverDomain (snd e))) (instructions r))
         = {(ED_exemple 0, ED_exemple 2), (ED_exemple 1, ED_exemple 3),
            (ED_exemple 2, ED_exemple 0), (ED_exemple 3, ED_exemple 1)}
     \<and> (0 + 4 div 2) mod 4 = (2::nat)
     \<and> (0 + 0) mod NU_scenario4 2 = 0
     \<and> (\<exists>c. get_table (instructions r) (ED_exemple 0, EPop r (ED_exemple 0) ! 0) = Some c
            \<and> receiverDomain c = ED_exemple 2 \<and> receiverUser c = EPop r (ED_exemple 2) ! 0))"
proof -
  have h: "inj_on ED_exemple {..<4}" by (rule inj_ED_exemple)
  from assembleRing_scenario4[OF h, of userId_exemple contentOf_exemple] h
  show ?thesis by blast
qed

end
